theory Spec2Isabelle
  imports Complex_Main "HOL-Library.Sublist" "HOL-Library.Multiset" "HOL-Library.AList"
begin

section \<open>The mount conflict check of \<open>tfnz/volume.py\<close>\<close>

subsection \<open>\<open>os.path.abspath\<close> on a POSIX system\<close>

text \<open>
  \<open>Volume.trees_intersect\<close> normalises every path with \<open>os.path.abspath\<close>, a function of
  Python's standard library. The conflict check below takes the normaliser as a parameter,
  so its general properties hold for every normaliser. The concrete one, used for the
  examples, follows \<open>posixpath.py\<close>: \<open>split\<close> is \<open>str.split(sep)\<close>, \<open>join_sep\<close> is
  \<open>sep.join(comps)\<close>, and the current directory \<open>os.getcwd()\<close> is the parameter \<open>cwd\<close>.
  Python strings are lists of characters.
\<close>

fun split :: "'a \<Rightarrow> 'a list \<Rightarrow> 'a list list" where
  "split sep [] = [[]]"
| "split sep (x # xs) =
     (if x = sep then [] # split sep xs
      else (case split sep xs of [] \<Rightarrow> [[x]] | y # ys \<Rightarrow> (x # y) # ys))"

fun join_sep :: "'a list \<Rightarrow> 'a list list \<Rightarrow> 'a list" where
  "join_sep sep [] = []"
| "join_sep sep [c] = c"
| "join_sep sep (c # cs) = c @ sep @ join_sep sep cs"

definition isabs :: "string \<Rightarrow> bool" where
  "isabs s = prefix ''/'' s"

text \<open>\<open>posixpath.join(a, b)\<close> for one component \<open>b\<close>.\<close>

definition join :: "string \<Rightarrow> string \<Rightarrow> string" where
  "join a b =
     (if prefix ''/'' b then b
      else if a = [] \<or> suffix ''/'' a then a @ b
      else a @ ''/'' @ b)"

text \<open>
  The body of the loop of \<open>normpath\<close> over the components: empty and \<open>.\<close> components are
  skipped, \<open>..\<close> pops the last kept component unless there is nothing to pop.
\<close>

definition normpath_step :: "nat \<Rightarrow> string list \<Rightarrow> string \<Rightarrow> string list" where
  "normpath_step initial_slashes new_comps cmp =
     (if cmp = [] \<or> cmp = ''.'' then new_comps
      else if cmp \<noteq> ''..'' \<or> (initial_slashes = 0 \<and> new_comps = [])
              \<or> (new_comps \<noteq> [] \<and> last new_comps = ''..'')
        then new_comps @ [cmp]
      else if new_comps \<noteq> [] then butlast new_comps
      else new_comps)"

definition normpath :: "string \<Rightarrow> string" where
  "normpath path =
     (if path = [] then ''.''
      else
        let initial_slashes =
              (if prefix ''/'' path
               then (if prefix ''//'' path \<and> \<not> prefix ''///'' path then 2 else 1)
               else (0::nat));
            comps = foldl (normpath_step initial_slashes) [] (split CHR ''/'' path);
            path' = replicate initial_slashes CHR ''/'' @ join_sep ''/'' comps
        in if path' = [] then ''.'' else path')"

definition posix_abspath :: "string \<Rightarrow> string \<Rightarrow> string" where
  "posix_abspath cwd path = normpath (if isabs path then path else join cwd path)"

subsection \<open>\<open>Volume.trees_intersect\<close>\<close>

text \<open>
  The loop over \<open>current\<close>, with \<open>p\<close> the normalised proposed path. \<open>current\<close> is the
  sequence of claimed mount points in the order the \<open>for\<close> loop visits them; the first
  conflict found is returned, \<open>None\<close> when the loop ends. The slices \<open>p[:len(c)]\<close> and
  \<open>c[:len(p)]\<close> are \<open>take\<close>.
\<close>

fun trees_intersect_loop ::
  "(string \<Rightarrow> string) \<Rightarrow> string \<Rightarrow> string list \<Rightarrow> (string \<times> string) option" where
  "trees_intersect_loop abspath p [] = None"
| "trees_intersect_loop abspath p (cur # rest) =
     (let c = abspath cur in
      if length p > length c then
        (if take (length c) p = c then Some (p, c)
         else trees_intersect_loop abspath p rest)
      else
        (if take (length p) c = p then Some (c, p)
         else trees_intersect_loop abspath p rest))"

definition trees_intersect ::
  "(string \<Rightarrow> string) \<Rightarrow> string list \<Rightarrow> string \<Rightarrow> (string \<times> string) option" where
  "trees_intersect abspath current proposed =
     trees_intersect_loop abspath (abspath proposed) current"

text \<open>
  Directory containment, for comparison with the string prefix the code uses: the
  components of the one path (its non-empty parts between separators) begin the
  components of the other.
\<close>

definition components :: "string \<Rightarrow> string list" where
  "components path = filter (\<lambda>c. c \<noteq> []) (split CHR ''/'' path)"

definition dir_contains :: "string \<Rightarrow> string \<Rightarrow> bool" where
  "dir_contains outer inner = prefix (components outer) (components inner)"


section \<open>The session object of \<open>tfnz/location.py\<close>\<close>

subsection \<open>Data\<close>

text \<open>
  Exceptions are values. \<open>ValueError\<close>, \<open>TypeError\<close>, \<open>KeyError\<close> and \<open>AttributeError\<close>
  are Python's (\<open>ValueError\<close> carries its message; \<open>AttributeError\<close> is what a method call on
  \<open>self.conn\<close> raises once it is \<open>None\<close>). \<open>NotFoundError\<close> is the specification's name for
  the failure of the volume registry on an unknown volume. \<open>ExternalError\<close> stands for any
  other exception that a collaborator raises.
\<close>

type_synonym uuid = string

datatype error =
    ValueError string
  | TypeError
  | KeyError
  | AttributeError
  | NotFoundError
  | ExternalError string

datatype RankBias = cpu | memory

datatype level = Debug | Info

text \<open>A port argument of \<open>_tunnel_onto\<close>: an \<open>int\<close>, a \<open>str\<close> still to be converted, or \<open>None\<close>.\<close>

datatype port = Port_int int | Port_str string | Port_none

type_synonym cluster = uuid

record 'v node =
  node_pk :: string
  stats :: "(string \<times> 'v) list"

record volume =
  volume_user :: string
  volume_uuid :: uuid
  volume_tag :: "string option"

record container =
  container_uuid :: uuid
  container_parent :: string

record tunnel =
  tunnel_uuid :: uuid
  tunnel_node :: string
  tunnel_container :: container
  tunnel_port :: port
  tunnel_localport :: port
  tunnel_bind :: "string option"

record web_endpoint =
  endpoint_domain :: string
  clusters :: "(uuid \<times> cluster) list"

record message =
  msg_uuid :: uuid
  msg_bulk :: string

text \<open>
  Every call that leaves \<open>location.py\<close> is an effect: the commands sent over the
  connection, the methods of tunnels, endpoints and containers, and logging. The session
  keeps the sequence of effects it has attempted in \<open>trace\<close>.
\<close>

datatype effect =
    Log level string
  | Send_cmd string "(string \<times> string) list"
  | Send_blocking_cmd string "(string \<times> string) list"
  | Conn_disconnect
  | Endpoint_unpublish string cluster
  | Container_wait_until_ready uuid
  | Tunnel_connect tunnel
  | Tunnel_destroy tunnel
  | Tunnel_from_proxy tunnel message
  | Tunnel_close_proxy tunnel message

text \<open>
  What the session cannot decide: whether a call to a collaborator raises (\<open>raises\<close>; a
  fire-and-forget or blocking command, a tunnel or endpoint method), what Python's
  \<open>int(str)\<close> returns (\<open>py_int\<close>, \<open>None\<close> when it raises \<open>ValueError\<close>), and the uuid the
  \<open>Tunnel\<close> constructor allocates (\<open>new_uuid\<close>).
\<close>

record env =
  raises :: "effect \<Rightarrow> error option"
  py_int :: "string \<Rightarrow> int option"
  new_uuid :: uuid

text \<open>
  The fields of \<open>Location\<close>. The dictionaries \<open>nodes\<close>, \<open>tunnels\<close> and \<open>endpoints\<close> are
  association lists in the order of iteration, which is the order of insertion
  (\<open>AList.update\<close> replaces the value of a key in place and appends a new key;
  \<open>AList.delete\<close> is \<open>del d[k]\<close>; \<open>map_of\<close> is the lookup). \<open>conn\<close> is \<open>None\<close> after
  \<open>disconnect\<close>. \<open>last_heartbeat\<close> is a reading of \<open>time.time()\<close>, in seconds, taken here
  as a real number.
\<close>

record 'v location =
  conn :: "string option"
  user_pk :: string
  ready :: bool
  nodes :: "(string \<times> 'v node) list"
  volumes :: "volume set"
  tunnels :: "(uuid \<times> tunnel) list"
  endpoints :: "(string \<times> web_endpoint) list"
  last_heartbeat :: real
  trace :: "effect list"

subsection \<open>Methods as state transformers\<close>

text \<open>
  A method takes the session and returns its result, or the exception it raises, with the
  session as the method left it: what was assigned before a \<open>raise\<close> stays assigned.
\<close>

type_synonym ('v, 'a) proc = "'v location \<Rightarrow> (error + 'a) \<times> 'v location"

definition ret :: "'a \<Rightarrow> ('v, 'a) proc" where
  "ret x s = (Inr x, s)"

definition raise :: "error \<Rightarrow> ('v, 'a) proc" where
  "raise e s = (Inl e, s)"

definition andthen :: "('v, 'a) proc \<Rightarrow> ('a \<Rightarrow> ('v, 'b) proc) \<Rightarrow> ('v, 'b) proc" where
  "andthen f g s = (case f s of (Inl e, s') \<Rightarrow> (Inl e, s') | (Inr x, s') \<Rightarrow> g x s')"

definition modify :: "('v location \<Rightarrow> 'v location) \<Rightarrow> ('v, unit) proc" where
  "modify f s = (Inr (), f s)"

definition logging :: "level \<Rightarrow> string \<Rightarrow> ('v, unit) proc" where
  "logging l m s = (Inr (), s\<lparr>trace := trace s @ [Log l m]\<rparr>)"

text \<open>A call to a collaborator: the attempt is recorded, then it returns or raises.\<close>

definition call :: "env \<Rightarrow> effect \<Rightarrow> ('v, unit) proc" where
  "call env e s =
     (let s' = s\<lparr>trace := trace s @ [e]\<rparr>
      in case raises env e of None \<Rightarrow> (Inr (), s') | Some err \<Rightarrow> (Inl err, s'))"

text \<open>A method of \<open>self.conn\<close>: an \<open>AttributeError\<close> when \<open>self.conn\<close> is \<open>None\<close>.\<close>

definition conn_call :: "env \<Rightarrow> effect \<Rightarrow> ('v, unit) proc" where
  "conn_call env e s =
     (case conn s of None \<Rightarrow> (Inl AttributeError, s) | Some c \<Rightarrow> call env e s)"

text \<open>A \<open>for\<close> loop whose body is a method; an exception in the body ends the loop.\<close>

fun for_each :: "('a \<Rightarrow> ('v, unit) proc) \<Rightarrow> 'a list \<Rightarrow> ('v, unit) proc" where
  "for_each body [] = ret ()"
| "for_each body (x # xs) = andthen (body x) (\<lambda>_. for_each body xs)"

text \<open>\<open>try: body except KeyError: handler\<close>.\<close>

definition except_KeyError :: "('v, 'a) proc \<Rightarrow> ('v, 'a) proc \<Rightarrow> ('v, 'a) proc" where
  "except_KeyError body handler s =
     (case body s of (Inl KeyError, s') \<Rightarrow> handler s' | r \<Rightarrow> r)"

text \<open>\<open>self.tunnels[k]\<close> and \<open>del self.tunnels[k]\<close>, with their \<open>KeyError\<close>.\<close>

definition tunnels_getitem :: "uuid \<Rightarrow> ('v, tunnel) proc" where
  "tunnels_getitem k s =
     (case map_of (tunnels s) k of None \<Rightarrow> (Inl KeyError, s) | Some t \<Rightarrow> (Inr t, s))"

definition tunnels_delitem :: "uuid \<Rightarrow> ('v, unit) proc" where
  "tunnels_delitem k s =
     (case map_of (tunnels s) k of
        None \<Rightarrow> (Inl KeyError, s)
      | Some t \<Rightarrow> (Inr (), s\<lparr>tunnels := AList.delete k (tunnels s)\<rparr>))"

text \<open>A dictionary comprehension over a list of key-value pairs.\<close>

definition dict_of :: "('k \<times> 'a) list \<Rightarrow> ('k \<times> 'a) list" where
  "dict_of kvs = foldl (\<lambda>d (k, v). AList.update k v d) [] kvs"


subsection \<open>\<open>Location.disconnect\<close>\<close>

definition disconnect :: "env \<Rightarrow> ('v, unit) proc" where
  "disconnect env s =
     (if conn s = None then ret () s
      else
        andthen (logging Info ''Disconnecting'') (\<lambda>_.
        andthen (\<lambda>s. for_each (\<lambda>endpoint.
                   for_each (\<lambda>cluster. call env (Endpoint_unpublish (endpoint_domain endpoint) cluster))
                     (map snd (clusters endpoint)))
                   (map snd (endpoints s)) s) (\<lambda>_.
        andthen (modify (\<lambda>s. s\<lparr>endpoints := []\<rparr>)) (\<lambda>_.
        andthen (\<lambda>s. for_each (\<lambda>tunnel. call env (Tunnel_destroy tunnel))
                   (map snd (tunnels s)) s) (\<lambda>_.
        andthen (modify (\<lambda>s. s\<lparr>tunnels := []\<rparr>)) (\<lambda>_.
        andthen (call env Conn_disconnect) (\<lambda>_.
        andthen (modify (\<lambda>s. s\<lparr>conn := None\<rparr>)) (\<lambda>_.
        modify (\<lambda>s. s\<lparr>nodes := []\<rparr>)))))))) s)"

subsection \<open>\<open>Location.ranked_nodes\<close>\<close>

text \<open>
  Python's \<open>sorted(xs, key=key, reverse=True)\<close>: a stable sort in descending order of the
  key (the list is reversed, sorted stably in ascending order, and reversed again).
\<close>

definition sorted_reverse :: "('a \<Rightarrow> 'k::linorder) \<Rightarrow> 'a list \<Rightarrow> 'a list" where
  "sorted_reverse key xs = rev (sort_key key (rev xs))"

text \<open>
  The key \<open>node.stats[name]\<close> is computed for every node; a node without that statistic
  raises \<open>KeyError\<close>.
\<close>

definition sorted_by_stat :: "string \<Rightarrow> ('v::linorder) node list \<Rightarrow> error + 'v node list" where
  "sorted_by_stat name ns =
     (if list_all (\<lambda>n. map_of (stats n) name \<noteq> None) ns
      then Inr (sorted_reverse (\<lambda>n. the (map_of (stats n) name)) ns)
      else Inl KeyError)"

definition ranked_nodes :: "('v::linorder) location \<Rightarrow> RankBias \<Rightarrow> error + 'v node list" where
  "ranked_nodes s bias =
     (let ns = map snd (nodes s) in
      if length ns = 0 then Inl (ValueError ''The location has no nodes'')
      else (case bias of
              cpu \<Rightarrow> sorted_by_stat ''cpu'' ns
            | memory \<Rightarrow> sorted_by_stat ''memory'' ns))"

subsection \<open>\<open>Location.destroy_volume\<close>\<close>

text \<open>
  Modelled from the spec: \<open>TaggedCollection\<close> (the class of \<open>self.volumes\<close>, defined in
  \<open>tfnz/__init__.py\<close>) is the registry of the volumes known to the session, here a set;
  its \<open>remove\<close> removes a known volume and fails with the specification's NotFound error
  on an unknown one.
\<close>

definition volumes_remove :: "volume \<Rightarrow> ('v, unit) proc" where
  "volumes_remove v s =
     (if v \<in> volumes s then (Inr (), s\<lparr>volumes := volumes s - {v}\<rparr>)
      else (Inl NotFoundError, s))"

text \<open>
  \<open>str(uuid)\<close> of a \<open>bytes\<close> uuid, for the log line (a uuid of printable characters
  without quote or backslash).
\<close>

definition str_bytes :: "string \<Rightarrow> string" where
  "str_bytes b = ''b'' @ [CHR 0x27] @ b @ [CHR 0x27]"

text \<open>The argument of \<open>destroy_volume\<close>: a \<open>Volume\<close>, or an object of another class.\<close>

datatype argument = Volume_object volume | Other_object

definition destroy_volume :: "env \<Rightarrow> argument \<Rightarrow> ('v, unit) proc" where
  "destroy_volume env arg =
     (case arg of
        Other_object \<Rightarrow> raise TypeError
      | Volume_object v \<Rightarrow>
          andthen (\<lambda>s. conn_call env
                     (Send_blocking_cmd ''destroy_volume''
                        [(''user'', user_pk s), (''volume'', volume_uuid v)]) s) (\<lambda>_.
          andthen (logging Info (''Destroyed volume: '' @ str_bytes (volume_uuid v))) (\<lambda>_.
          volumes_remove v)))"

subsection \<open>\<open>Location.endpoint_for\<close>\<close>

fun endpoint_for_loop :: "string \<Rightarrow> (string \<times> web_endpoint) list \<Rightarrow> error + web_endpoint" where
  "endpoint_for_loop fqdn [] =
     Inl (ValueError (''There is no endpoint capable of serving: '' @ fqdn))"
| "endpoint_for_loop fqdn ((domain, ep) # rest) =
     (if suffix domain fqdn then Inr ep else endpoint_for_loop fqdn rest)"

definition endpoint_for :: "'v location \<Rightarrow> string \<Rightarrow> error + web_endpoint" where
  "endpoint_for s fqdn = endpoint_for_loop fqdn (endpoints s)"

subsection \<open>\<open>Location._heartbeat\<close>\<close>

text \<open>\<open>now1\<close> and \<open>now2\<close> are the two readings of \<open>time.time()\<close> the method takes.\<close>

definition heartbeat :: "env \<Rightarrow> real \<Rightarrow> real \<Rightarrow> ('v, unit) proc" where
  "heartbeat env now1 now2 s =
     (if now1 - last_heartbeat s < 60 then ret () s
      else
        andthen (modify (\<lambda>s. s\<lparr>last_heartbeat := now2\<rparr>)) (\<lambda>_.
        conn_call env (Send_cmd ''heartbeat'' [])) s)"

text \<open>
  The event loop calls \<open>_heartbeat\<close> on every idle tick; a tick is the pair of clock
  readings of that call. The session after a sequence of ticks:
\<close>

fun idle_ticks :: "env \<Rightarrow> (real \<times> real) list \<Rightarrow> 'v location \<Rightarrow> 'v location" where
  "idle_ticks env [] s = s"
| "idle_ticks env ((now1, now2) # ticks) s = idle_ticks env ticks (snd (heartbeat env now1 now2 s))"

definition heartbeats_sent :: "'v location \<Rightarrow> nat" where
  "heartbeats_sent s = length (filter (\<lambda>e. e = Send_cmd ''heartbeat'' []) (trace s))"

subsection \<open>\<open>Location._from_proxy\<close> and \<open>Location._close_proxy\<close>\<close>

definition from_proxy :: "env \<Rightarrow> message \<Rightarrow> ('v, unit) proc" where
  "from_proxy env msg =
     except_KeyError
       (andthen (tunnels_getitem (msg_uuid msg)) (\<lambda>tunnel.
        call env (Tunnel_from_proxy tunnel msg)))
       (logging Debug ''Data arrived from a proxy we already closed'')"

definition close_proxy :: "env \<Rightarrow> message \<Rightarrow> ('v, unit) proc" where
  "close_proxy env msg =
     except_KeyError
       (andthen (tunnels_getitem (msg_uuid msg)) (\<lambda>tunnel.
        call env (Tunnel_close_proxy tunnel msg)))
       (logging Debug ''Asked to close a proxy that we already closed'')"

text \<open>
  The two proxy events the event loop dispatches, and the handling of a sequence of them
  in the order of arrival. The handlers run on the event loop: what they return or raise
  does not reach the caller of a method of the session, and the loop goes on with the
  next event.
\<close>

datatype push = From_proxy message | Close_proxy message

fun dispatch :: "env \<Rightarrow> push \<Rightarrow> ('v, unit) proc" where
  "dispatch env (From_proxy msg) = from_proxy env msg"
| "dispatch env (Close_proxy msg) = close_proxy env msg"

fun deliver :: "env \<Rightarrow> push list \<Rightarrow> 'v location \<Rightarrow> 'v location" where
  "deliver env [] s = s"
| "deliver env (ev # evs) s = deliver env evs (snd (dispatch env ev s))"

subsection \<open>\<open>Location._tunnel_onto\<close>\<close>

text \<open>\<open>if isinstance(port, str): port = int(port)\<close>.\<close>

definition to_int :: "env \<Rightarrow> port \<Rightarrow> ('v, port) proc" where
  "to_int env p =
     (case p of
        Port_str str \<Rightarrow>
          (case py_int env str of
             None \<Rightarrow> raise (ValueError (''invalid literal for int() with base 10: '' @ str))
           | Some i \<Rightarrow> ret (Port_int i))
      | _ \<Rightarrow> ret p)"

text \<open>
  The constructor \<open>Tunnel(self.conn, container.parent(), container, port, localport, bind)\<close>;
  the new tunnel has the uuid the constructor allocates.
\<close>

definition new_tunnel :: "env \<Rightarrow> container \<Rightarrow> port \<Rightarrow> port \<Rightarrow> string option \<Rightarrow> tunnel" where
  "new_tunnel env container port localport bind =
     \<lparr>tunnel_uuid = new_uuid env, tunnel_node = container_parent container,
      tunnel_container = container, tunnel_port = port,
      tunnel_localport = localport, tunnel_bind = bind\<rparr>"

text \<open>
  \<open>tunnel.connect()\<close>. The call runs on the thread of the caller while the event loop
  keeps dispatching: \<open>arriving\<close> is the sequence of proxy events the loop handles between
  the start of the call and its return, each on the session as it is at that moment.
\<close>

definition connect :: "env \<Rightarrow> push list \<Rightarrow> tunnel \<Rightarrow> ('v, unit) proc" where
  "connect env arriving tunnel s =
     (let s' = deliver env arriving (s\<lparr>trace := trace s @ [Tunnel_connect tunnel]\<rparr>)
      in case raises env (Tunnel_connect tunnel) of
           None \<Rightarrow> (Inr (), s')
         | Some err \<Rightarrow> (Inl err, s'))"

definition tunnel_onto ::
  "env \<Rightarrow> push list \<Rightarrow> container \<Rightarrow> port \<Rightarrow> port \<Rightarrow> string option \<Rightarrow> ('v, tunnel) proc" where
  "tunnel_onto env arriving container port localport bind =
     andthen (to_int env port) (\<lambda>port.
     andthen (to_int env localport) (\<lambda>localport.
     andthen (call env (Container_wait_until_ready (container_uuid container))) (\<lambda>_.
     (let tunnel = new_tunnel env container port localport bind
      in andthen (modify (\<lambda>s. s\<lparr>tunnels := AList.update (tunnel_uuid tunnel) tunnel (tunnels s)\<rparr>)) (\<lambda>_.
         andthen (connect env arriving tunnel) (\<lambda>_.
         ret tunnel))))))"

subsection \<open>\<open>Location._destroy_tunnel\<close>\<close>

definition destroy_tunnel :: "env \<Rightarrow> tunnel \<Rightarrow> container option \<Rightarrow> ('v, unit) proc" where
  "destroy_tunnel env tunnel container =
     andthen (case container of
                None \<Rightarrow> ret ()
              | Some c \<Rightarrow>
                  if tunnel_container tunnel \<noteq> c
                  then raise (ValueError
                    ''Tried to destroy a tunnel actually connected to a different container'')
                  else ret ()) (\<lambda>_.
     andthen (call env (Tunnel_destroy tunnel)) (\<lambda>_.
     tunnels_delitem (tunnel_uuid tunnel)))"

subsection \<open>\<open>Location._resource_offer\<close>\<close>

text \<open>
  The parameters of a resource offer: the domains, the nodes with their statistics, and
  the volumes with their tags. \<open>new_endpoint\<close> is the constructor \<open>WebEndpoint(conn, domain)\<close>:
  a new endpoint has no clusters. \<open>mark_as_ready\<close> sets the readiness flag.
\<close>

definition new_endpoint :: "string \<Rightarrow> web_endpoint" where
  "new_endpoint domain = \<lparr>endpoint_domain = domain, clusters = []\<rparr>"

record 'v offer =
  offer_domains :: "string list"
  offer_nodes :: "(string \<times> (string \<times> 'v) list) list"
  offer_volumes :: "(uuid \<times> string option) list"

definition resource_offer :: "'v offer \<Rightarrow> ('v, unit) proc" where
  "resource_offer msg =
     andthen (modify (\<lambda>s. s\<lparr>endpoints :=
                dict_of (map (\<lambda>dom. (dom, new_endpoint dom)) (offer_domains msg))\<rparr>)) (\<lambda>_.
     andthen (modify (\<lambda>s. s\<lparr>nodes :=
                dict_of (map (\<lambda>node. (fst node, \<lparr>node_pk = fst node, stats = snd node\<rparr>))
                           (offer_nodes msg))\<rparr>)) (\<lambda>_.
     andthen (modify (\<lambda>s. s\<lparr>volumes :=
                set (map (\<lambda>vol. \<lparr>volume_user = user_pk s, volume_uuid = fst vol,
                                    volume_tag = snd vol\<rparr>) (offer_volumes msg))\<rparr>)) (\<lambda>_.
     modify (\<lambda>s. s\<lparr>ready := True\<rparr>))))"

subsection \<open>Example sessions\<close>

definition no_failures :: env where
  "no_failures = \<lparr>raises = (\<lambda>e. None), py_int = (\<lambda>str. None), new_uuid = ''t2''\<rparr>"

definition example_container :: container where
  "example_container = \<lparr>container_uuid = ''c1'', container_parent = ''n1''\<rparr>"

definition other_container :: container where
  "other_container = \<lparr>container_uuid = ''c2'', container_parent = ''n1''\<rparr>"

definition example_tunnel :: tunnel where
  "example_tunnel = \<lparr>tunnel_uuid = ''t1'', tunnel_node = ''n1'',
     tunnel_container = example_container, tunnel_port = Port_int 80,
     tunnel_localport = Port_int 8080, tunnel_bind = None\<rparr>"

definition example_volume :: volume where
  "example_volume = \<lparr>volume_user = ''pk'', volume_uuid = ''v1'', volume_tag = None\<rparr>"

definition unknown_volume :: volume where
  "unknown_volume = \<lparr>volume_user = ''pk'', volume_uuid = ''v2'', volume_tag = None\<rparr>"

definition example_nodes :: "(string \<times> int node) list" where
  "example_nodes =
     [(''n1'', \<lparr>node_pk = ''n1'', stats = [(''cpu'', 10), (''memory'', 5)]\<rparr>),
      (''n2'', \<lparr>node_pk = ''n2'', stats = [(''cpu'', 30), (''memory'', 7)]\<rparr>),
      (''n3'', \<lparr>node_pk = ''n3'', stats = [(''cpu'', 20), (''memory'', 5)]\<rparr>)]"

definition example_session :: "int location" where
  "example_session =
     \<lparr>conn = Some ''tiny.20ft.nz'', user_pk = ''pk'', ready = True,
      nodes = example_nodes,
      volumes = {example_volume},
      tunnels = [(''t1'', example_tunnel)],
      endpoints = [(''my.com'', \<lparr>endpoint_domain = ''my.com'', clusters = [(''k1'', ''k1'')]\<rparr>),
                   (''b.my.com'', \<lparr>endpoint_domain = ''b.my.com'', clusters = []\<rparr>)],
      last_heartbeat = 0,
      trace = []\<rparr>"


text \<open>A location that rejects every blocking command, and one where no tunnel can connect.\<close>

definition remote_rejects :: env where
  "remote_rejects =
     \<lparr>raises = (\<lambda>e. case e of
                  Send_blocking_cmd c ps \<Rightarrow> Some (ValueError ''rejected by the location'')
                | _ \<Rightarrow> None),
      py_int = (\<lambda>str. None), new_uuid = ''t2''\<rparr>"

definition connect_fails :: env where
  "connect_fails =
     \<lparr>raises = (\<lambda>e. case e of
                  Tunnel_connect t \<Rightarrow> Some (ExternalError ''cannot connect'')
                | _ \<Rightarrow> None),
      py_int = (\<lambda>str. None), new_uuid = ''t2''\<rparr>"

definition example_new_tunnel :: tunnel where
  "example_new_tunnel = new_tunnel connect_fails example_container (Port_int 80) Port_none None"

text \<open>A location where no cluster can be unpublished.\<close>

definition unpublish_fails :: env where
  "unpublish_fails =
     \<lparr>raises = (\<lambda>e. case e of
                  Endpoint_unpublish d c \<Rightarrow> Some (ExternalError ''cannot unpublish'')
                | _ \<Rightarrow> None),
      py_int = (\<lambda>str. None), new_uuid = ''t2''\<rparr>"

subsection \<open>Notions used to state the properties\<close>

text \<open>The statistic a rank bias names, and its value at a node.\<close>

definition stat_name :: "RankBias \<Rightarrow> string" where
  "stat_name bias = (case bias of cpu \<Rightarrow> ''cpu'' | memory \<Rightarrow> ''memory'')"

definition stat_of :: "RankBias \<Rightarrow> 'v node \<Rightarrow> 'v" where
  "stat_of bias n = the (map_of (stats n) (stat_name bias))"

text \<open>The error \<open>endpoint_for\<close> raises.\<close>

definition no_endpoint :: "string \<Rightarrow> error" where
  "no_endpoint fqdn = ValueError (''There is no endpoint capable of serving: '' @ fqdn)"

text \<open>The error of the container guard, and the two debug lines of the proxy events.\<close>

definition wrong_container :: error where
  "wrong_container =
     ValueError ''Tried to destroy a tunnel actually connected to a different container''"

definition proxy_closed :: effect where
  "proxy_closed = Log Debug ''Data arrived from a proxy we already closed''"

definition proxy_closed_twice :: effect where
  "proxy_closed_twice = Log Debug ''Asked to close a proxy that we already closed''"

text \<open>The session with further effects at the end of its trace.\<close>

definition traced :: "'v location \<Rightarrow> effect list \<Rightarrow> 'v location" where
  "traced s es = s\<lparr>trace := trace s @ es\<rparr>"

text \<open>
  The keepalive command, and a tick whose two clock readings lie in the window of 60
  seconds that begins at \<open>start\<close>.
\<close>

definition keepalive :: effect where
  "keepalive = Send_cmd ''heartbeat'' []"

definition in_window :: "real \<Rightarrow> (real \<times> real) \<Rightarrow> bool" where
  "in_window start tick =
     (start \<le> fst tick \<and> fst tick < start + 60 \<and> start \<le> snd tick \<and> snd tick < start + 60)"

text \<open>The destroy command sent for a volume, and the log line after it.\<close>

definition destroy_cmd :: "'v location \<Rightarrow> volume \<Rightarrow> effect" where
  "destroy_cmd s v =
     Send_blocking_cmd ''destroy_volume'' [(''user'', user_pk s), (''volume'', volume_uuid v)]"

definition destroyed_log :: "volume \<Rightarrow> effect" where
  "destroyed_log v = Log Info (''Destroyed volume: '' @ str_bytes (volume_uuid v))"

text \<open>
  A port argument after \<open>int()\<close>, when the conversion succeeds; and the session in which
  \<open>_tunnel_onto\<close> calls \<open>tunnel.connect()\<close>: the container has been waited for and the
  tunnel is in the registry.
\<close>

definition converted :: "env \<Rightarrow> port \<Rightarrow> port option" where
  "converted env p =
     (case p of Port_str str \<Rightarrow> map_option Port_int (py_int env str) | _ \<Rightarrow> Some p)"

definition registered :: "'v location \<Rightarrow> container \<Rightarrow> tunnel \<Rightarrow> 'v location" where
  "registered s container t =
     traced (s\<lparr>tunnels := AList.update (tunnel_uuid t) t (tunnels s)\<rparr>)
       [Container_wait_until_ready (container_uuid container)]"

text \<open>
  The uuid a proxy event names. The effects of handling an event whose uuid is registered
  for the tunnel \<open>t\<close>: the tunnel's method is called (and when that method itself raises
  \<open>KeyError\<close>, the debug line follows). The effect of handling an event whose uuid is not
  registered: the debug line alone.
\<close>

fun push_uuid :: "push \<Rightarrow> uuid" where
  "push_uuid (From_proxy msg) = msg_uuid msg"
| "push_uuid (Close_proxy msg) = msg_uuid msg"

fun forwarded :: "env \<Rightarrow> tunnel \<Rightarrow> push \<Rightarrow> effect list" where
  "forwarded env t (From_proxy msg) =
     Tunnel_from_proxy t msg #
       (if raises env (Tunnel_from_proxy t msg) = Some KeyError then [proxy_closed] else [])"
| "forwarded env t (Close_proxy msg) =
     Tunnel_close_proxy t msg #
       (if raises env (Tunnel_close_proxy t msg) = Some KeyError then [proxy_closed_twice] else [])"

fun dropped :: "push \<Rightarrow> effect" where
  "dropped (From_proxy msg) = proxy_closed"
| "dropped (Close_proxy msg) = proxy_closed_twice"

text \<open>
  What a teardown that meets no exception does, in order: the log line, one \<open>unpublish\<close>
  for every cluster of every endpoint, one \<open>destroy\<close> for every tunnel, and the
  disconnection of the transport; and the session it leaves.
\<close>

definition unpublish_effects :: "'v location \<Rightarrow> effect list" where
  "unpublish_effects s =
     concat (map (\<lambda>endpoint. map (Endpoint_unpublish (endpoint_domain endpoint))
                                (map snd (clusters endpoint)))
               (map snd (endpoints s)))"

definition destroy_effects :: "'v location \<Rightarrow> effect list" where
  "destroy_effects s = map Tunnel_destroy (map snd (tunnels s))"

definition teardown :: "'v location \<Rightarrow> effect list" where
  "teardown s =
     Log Info ''Disconnecting'' # unpublish_effects s @ destroy_effects s @ [Conn_disconnect]"

definition disconnected :: "'v location \<Rightarrow> 'v location" where
  "disconnected s = s\<lparr>endpoints := [], tunnels := [], conn := None, nodes := []\<rparr>"

section \<open>Properties of the mount conflict check\<close>

text \<open>The slices of the code compare equal exactly when the shorter string begins the longer.\<close>

lemma take_eq_iff_prefix: "length c \<le> length p \<Longrightarrow> (take (length c) p = c) = prefix c p"
  by (metis append_eq_conv_conj prefix_def take_is_prefix)

lemma prefix_longer_eq: "prefix c p \<Longrightarrow> length p \<le> length c \<Longrightarrow> c = p"
  by (metis prefix_length_le le_antisym prefix_order.eq_iff prefix_length_prefix prefix_order.order_refl)

lemma trees_intersect_loop_None_iff:
  "(trees_intersect_loop ab p current = None) =
     (\<forall>cur \<in> set current. \<not> prefix p (ab cur) \<and> \<not> prefix (ab cur) p)"
proof (induction current)
  case Nil
  show ?case by simp
next
  case (Cons cur rest)
  show ?case
  proof (cases "length p > length (ab cur)")
    case True
    then have "\<not> prefix p (ab cur)"
      using prefix_length_le by fastforce
    with True Cons show ?thesis
      by (simp add: Let_def take_eq_iff_prefix)
  next
    case False
    then have "prefix (ab cur) p \<longrightarrow> prefix p (ab cur)"
      using prefix_longer_eq by fastforce
    with False Cons show ?thesis
      by (auto simp add: Let_def take_eq_iff_prefix)
  qed
qed

lemma trees_intersect_loop_Some:
  "trees_intersect_loop ab p current = Some (a, b) \<Longrightarrow>
     prefix b a \<and> (\<exists>cur \<in> set current. (a, b) = (p, ab cur) \<or> (a, b) = (ab cur, p))"
proof (induction current)
  case Nil
  then show ?case by simp
next
  case (Cons cur rest)
  show ?case
  proof (cases "length p > length (ab cur)")
    case True
    with Cons show ?thesis
      by (auto simp add: Let_def take_eq_iff_prefix split: if_splits)
  next
    case False
    with Cons show ?thesis
      by (auto simp add: Let_def take_eq_iff_prefix split: if_splits)
  qed
qed

lemmas path_simps = trees_intersect_def posix_abspath_def isabs_def normpath_def normpath_step_def

text \<open>
  C1. For every normaliser, every sequence of claimed mount paths and every proposed
  path, \<open>trees_intersect\<close> returns a pair exactly when, after normalising, the proposed
  path is a string prefix of a claimed path, a claimed path is a string prefix of the
  proposed path, or the two are equal. The pair it returns is the longer path followed by
  the shorter one, and one of them is the normalised proposed path. With POSIX
  \<open>abspath\<close>, whatever the current directory: no claimed path and \<open>/a/b\<close> give no conflict;
  \<open>/a/b\<close> claimed and \<open>/a/b/c\<close> proposed, and \<open>/a/b/c\<close> claimed and \<open>/a/b\<close> proposed, both
  give the pair \<open>(/a/b/c, /a/b)\<close>; \<open>/x\<close> claimed and \<open>/y\<close> proposed give no conflict.
\<close>

theorem trees_intersect_conflict_iff:
  "((trees_intersect abspath current proposed \<noteq> None) =
      (\<exists>cur \<in> set current. prefix (abspath proposed) (abspath cur)
                         \<or> prefix (abspath cur) (abspath proposed)
                         \<or> abspath proposed = abspath cur))
   \<and> (case trees_intersect abspath current proposed of
        None \<Rightarrow> True
      | Some (a, b) \<Rightarrow> prefix b a \<and>
          (\<exists>cur \<in> set current. (a, b) = (abspath proposed, abspath cur)
                             \<or> (a, b) = (abspath cur, abspath proposed)))
   \<and> trees_intersect (posix_abspath cwd) [] ''/a/b'' = None
   \<and> trees_intersect (posix_abspath cwd) [''/a/b''] ''/a/b/c'' = Some (''/a/b/c'', ''/a/b'')
   \<and> trees_intersect (posix_abspath cwd) [''/a/b/c''] ''/a/b'' = Some (''/a/b/c'', ''/a/b'')
   \<and> trees_intersect (posix_abspath cwd) [''/x''] ''/y'' = None"
proof -
  have iff: "(trees_intersect abspath current proposed \<noteq> None) =
      (\<exists>cur \<in> set current. prefix (abspath proposed) (abspath cur)
                         \<or> prefix (abspath cur) (abspath proposed)
                         \<or> abspath proposed = abspath cur)"
    unfolding trees_intersect_def trees_intersect_loop_None_iff by auto
  have pair: "(case trees_intersect abspath current proposed of
        None \<Rightarrow> True
      | Some (a, b) \<Rightarrow> prefix b a \<and>
          (\<exists>cur \<in> set current. (a, b) = (abspath proposed, abspath cur)
                             \<or> (a, b) = (abspath cur, abspath proposed)))"
    using trees_intersect_loop_Some [of abspath "abspath proposed" current]
    by (auto simp add: trees_intersect_def split: option.splits)
  have e1: "trees_intersect (posix_abspath cwd) [] ''/a/b'' = None"
    by (simp add: path_simps)
  have e2: "trees_intersect (posix_abspath cwd) [''/a/b''] ''/a/b/c'' = Some (''/a/b/c'', ''/a/b'')"
    by (simp add: path_simps)
  have e3: "trees_intersect (posix_abspath cwd) [''/a/b/c''] ''/a/b'' = Some (''/a/b/c'', ''/a/b'')"
    by (simp add: path_simps)
  have e4: "trees_intersect (posix_abspath cwd) [''/x''] ''/y'' = None"
    by (simp add: path_simps)
  from iff pair e1 e2 e3 e4 show ?thesis by blast
qed

text \<open>
  The same at relative and unnormalised paths: in the directory \<open>/home/u\<close>, the claimed
  path \<open>b\<close> conflicts with the proposed path \<open>/home/u/./b/../b/c\<close>.
\<close>

theorem trees_intersect_conflict_iff_witness:
  "trees_intersect (posix_abspath ''/home/u'') [''/x'', ''b''] ''/home/u/./b/../b/c''
     = Some (''/home/u/b/c'', ''/home/u/b'')
   \<and> prefix (posix_abspath ''/home/u'' ''b'') (posix_abspath ''/home/u'' ''/home/u/./b/../b/c'')"
proof -
  have "trees_intersect (posix_abspath ''/home/u'') [''/x'', ''b''] ''/home/u/./b/../b/c''
     = Some (''/home/u/b/c'', ''/home/u/b'')"
    by (simp add: path_simps join_def suffix_to_prefix)
  moreover have "prefix (posix_abspath ''/home/u'' ''b'') (posix_abspath ''/home/u'' ''/home/u/./b/../b/c'')"
    by (simp add: path_simps join_def suffix_to_prefix)
  ultimately show ?thesis
    using trees_intersect_conflict_iff
      [of "posix_abspath ''/home/u''" "[''/x'', ''b'']" "''/home/u/./b/../b/c''" "''/home/u''"]
    by simp
qed

text \<open>
  C10. The comparison is on the characters of the normalised paths, with no regard for the
  separator: whenever one normalised path is a proper string prefix of the other, a
  conflict is reported (as the pair of the longer and the shorter path when the claimed
  path is the only one), whether or not the shorter path ends at a directory boundary of
  the longer.
\<close>

theorem trees_intersect_string_prefix:
  "strict_prefix (abspath cur) (abspath proposed) \<or> strict_prefix (abspath proposed) (abspath cur) \<Longrightarrow>
     (cur \<in> set current \<longrightarrow> trees_intersect abspath current proposed \<noteq> None)
     \<and> trees_intersect abspath [cur] proposed =
         Some (if length (abspath proposed) > length (abspath cur)
               then (abspath proposed, abspath cur) else (abspath cur, abspath proposed))"
proof -
  assume sp: "strict_prefix (abspath cur) (abspath proposed) \<or> strict_prefix (abspath proposed) (abspath cur)"
  then have pre: "prefix (abspath cur) (abspath proposed) \<or> prefix (abspath proposed) (abspath cur)"
    by (auto simp add: strict_prefix_def)
  have a: "cur \<in> set current \<longrightarrow> trees_intersect abspath current proposed \<noteq> None"
    using pre unfolding trees_intersect_def trees_intersect_loop_None_iff by auto
  have b: "trees_intersect abspath [cur] proposed =
         Some (if length (abspath proposed) > length (abspath cur)
               then (abspath proposed, abspath cur) else (abspath cur, abspath proposed))"
  proof (cases "length (abspath proposed) > length (abspath cur)")
    case True
    then have "\<not> prefix (abspath proposed) (abspath cur)"
      using prefix_length_le by fastforce
    with pre True show ?thesis
      by (simp add: trees_intersect_def Let_def take_eq_iff_prefix)
  next
    case False
    with pre have "prefix (abspath proposed) (abspath cur)"
      using prefix_longer_eq by fastforce
    with False show ?thesis
      by (simp add: trees_intersect_def Let_def take_eq_iff_prefix)
  qed
  from a b show ?thesis by blast
qed

text \<open>
  At \<open>/a/b\<close> claimed and \<open>/a/bc\<close> proposed the conflict is reported although neither
  directory contains the other.
\<close>

theorem trees_intersect_string_prefix_witness:
  "strict_prefix (posix_abspath ''/home'' ''/a/b'') (posix_abspath ''/home'' ''/a/bc'')
   \<and> trees_intersect (posix_abspath ''/home'') [''/a/b''] ''/a/bc'' = Some (''/a/bc'', ''/a/b'')
   \<and> \<not> dir_contains ''/a/b'' ''/a/bc'' \<and> \<not> dir_contains ''/a/bc'' ''/a/b''"
proof -
  have h: "strict_prefix (posix_abspath ''/home'' ''/a/b'') (posix_abspath ''/home'' ''/a/bc'')"
    by (simp add: path_simps strict_prefix_def)
  have d: "\<not> dir_contains ''/a/b'' ''/a/bc'' \<and> \<not> dir_contains ''/a/bc'' ''/a/b''"
    by (simp add: dir_contains_def components_def)
  have n: "posix_abspath ''/home'' ''/a/b'' = ''/a/b'' \<and> posix_abspath ''/home'' ''/a/bc'' = ''/a/bc''"
    by (simp add: path_simps)
  from trees_intersect_string_prefix [of "posix_abspath ''/home''" "''/a/b''" "''/a/bc''" "[''/a/b'']"] h d n
  show ?thesis by simp
qed


section \<open>Properties of the session\<close>

subsection \<open>Ranking\<close>

lemma mset_sorted_reverse: "mset (sorted_reverse key xs) = mset xs"
  by (simp add: sorted_reverse_def)

lemma sorted_reverse_descending:
  "sorted_wrt (\<lambda>a b. key a \<ge> key b) (sorted_reverse key xs)"
proof -
  have "sorted (map key (sort_key key (rev xs)))"
    by (rule sorted_sort_key)
  then have "sorted_wrt (\<lambda>a b. key a \<le> key b) (sort_key key (rev xs))"
    by (simp add: sorted_map)
  then show ?thesis
    by (simp add: sorted_reverse_def sorted_wrt_rev)
qed

lemma sorted_reverse_stable:
  "filter (\<lambda>x. key x = v) (sorted_reverse key xs) = filter (\<lambda>x. key x = v) xs"
proof -
  have "filter (\<lambda>x. key x = v) (sort_key key (rev xs)) = filter (\<lambda>x. key x = v) (rev xs)"
    by (rule sort_key_stable)
  then show ?thesis
    by (simp add: sorted_reverse_def rev_filter [symmetric])
qed

lemma sorted_by_stat_Inr:
  "list_all (\<lambda>n. map_of (stats n) name \<noteq> None) ns \<Longrightarrow>
     sorted_by_stat name ns = Inr (sorted_reverse (\<lambda>n. the (map_of (stats n) name)) ns)"
  by (simp add: sorted_by_stat_def)

lemma ranked_nodes_Inr:
  assumes "nodes s \<noteq> []"
    and "list_all (\<lambda>n. map_of (stats n) (stat_name bias) \<noteq> None) (map snd (nodes s))"
  shows "ranked_nodes s bias = Inr (sorted_reverse (stat_of bias) (map snd (nodes s)))"
proof -
  have "sorted_by_stat (stat_name bias) (map snd (nodes s))
      = Inr (sorted_reverse (stat_of bias) (map snd (nodes s)))"
    using assms(2) unfolding stat_of_def [abs_def] by (simp add: sorted_by_stat_Inr)
  moreover have "ranked_nodes s bias = sorted_by_stat (stat_name bias) (map snd (nodes s))"
    using assms(1) by (cases bias) (simp_all add: ranked_nodes_def stat_name_def)
  ultimately show ?thesis by simp
qed

text \<open>
  C2. On an empty node set \<open>ranked_nodes\<close> fails with the \<open>ValueError\<close> of the method
  itself (\<open>The location has no nodes\<close>). On a non-empty node set whose nodes all carry the
  requested statistic, it returns the nodes (the same nodes, each as often as before) in
  descending order of that statistic, and the nodes of equal statistic are in the order
  in which \<open>self.nodes.values()\<close> yields them.
\<close>

theorem ranked_nodes_sorted_stable:
  "(nodes s = [] \<longrightarrow> ranked_nodes s bias = Inl (ValueError ''The location has no nodes''))
   \<and> (nodes s \<noteq> [] \<and> list_all (\<lambda>n. map_of (stats n) (stat_name bias) \<noteq> None) (map snd (nodes s)) \<longrightarrow>
        (\<exists>ranked. ranked_nodes s bias = Inr ranked
           \<and> mset ranked = mset (map snd (nodes s))
           \<and> sorted_wrt (\<lambda>a b. stat_of bias a \<ge> stat_of bias b) ranked
           \<and> (\<forall>v. filter (\<lambda>n. stat_of bias n = v) ranked
                  = filter (\<lambda>n. stat_of bias n = v) (map snd (nodes s)))))"
proof (intro conjI impI)
  assume "nodes s = []"
  then show "ranked_nodes s bias = Inl (ValueError ''The location has no nodes'')"
    by (simp add: ranked_nodes_def)
next
  assume h: "nodes s \<noteq> [] \<and> list_all (\<lambda>n. map_of (stats n) (stat_name bias) \<noteq> None) (map snd (nodes s))"
  let ?ranked = "sorted_reverse (stat_of bias) (map snd (nodes s))"
  have "ranked_nodes s bias = Inr ?ranked"
    using h by (simp add: ranked_nodes_Inr)
  moreover have "mset ?ranked = mset (map snd (nodes s))"
    by (rule mset_sorted_reverse)
  moreover have "sorted_wrt (\<lambda>a b. stat_of bias a \<ge> stat_of bias b) ?ranked"
    by (rule sorted_reverse_descending)
  moreover have "\<forall>v. filter (\<lambda>n. stat_of bias n = v) ?ranked
                  = filter (\<lambda>n. stat_of bias n = v) (map snd (nodes s))"
    by (simp add: sorted_reverse_stable)
  ultimately show "\<exists>ranked. ranked_nodes s bias = Inr ranked
           \<and> mset ranked = mset (map snd (nodes s))
           \<and> sorted_wrt (\<lambda>a b. stat_of bias a \<ge> stat_of bias b) ranked
           \<and> (\<forall>v. filter (\<lambda>n. stat_of bias n = v) ranked
                  = filter (\<lambda>n. stat_of bias n = v) (map snd (nodes s)))"
    by blast
qed

text \<open>
  Three nodes ranked by memory: the two nodes with memory 5 keep their order. And the
  session without nodes.
\<close>

lemma example_ranked:
  "ranked_nodes example_session memory =
     Inr [\<lparr>node_pk = ''n2'', stats = [(''cpu'', 30), (''memory'', 7)]\<rparr>,
          \<lparr>node_pk = ''n1'', stats = [(''cpu'', 10), (''memory'', 5)]\<rparr>,
          \<lparr>node_pk = ''n3'', stats = [(''cpu'', 20), (''memory'', 5)]\<rparr>]"
  by (simp add: ranked_nodes_def example_session_def example_nodes_def sorted_by_stat_def
      sorted_reverse_def)

theorem ranked_nodes_sorted_stable_witness:
  "nodes example_session \<noteq> []
   \<and> list_all (\<lambda>n. map_of (stats n) (stat_name memory) \<noteq> None) (map snd (nodes example_session))
   \<and> ranked_nodes example_session memory =
       Inr [\<lparr>node_pk = ''n2'', stats = [(''cpu'', 30), (''memory'', 7)]\<rparr>,
            \<lparr>node_pk = ''n1'', stats = [(''cpu'', 10), (''memory'', 5)]\<rparr>,
            \<lparr>node_pk = ''n3'', stats = [(''cpu'', 20), (''memory'', 5)]\<rparr>]
   \<and> sorted_wrt (\<lambda>a b. stat_of memory a \<ge> stat_of memory b)
        [\<lparr>node_pk = ''n2'', stats = [(''cpu'', 30), (''memory'', 7::int)]\<rparr>,
         \<lparr>node_pk = ''n1'', stats = [(''cpu'', 10), (''memory'', 5)]\<rparr>,
         \<lparr>node_pk = ''n3'', stats = [(''cpu'', 20), (''memory'', 5)]\<rparr>]
   \<and> nodes (example_session\<lparr>nodes := []\<rparr>) = []
   \<and> ranked_nodes (example_session\<lparr>nodes := []\<rparr>) cpu
        = Inl (ValueError ''The location has no nodes'')"
proof -
  have h1: "nodes example_session \<noteq> []"
    by (simp add: example_session_def example_nodes_def)
  have h2: "list_all (\<lambda>n. map_of (stats n) (stat_name memory) \<noteq> None) (map snd (nodes example_session))"
    by (simp add: example_session_def example_nodes_def stat_name_def)
  have h3: "nodes (example_session\<lparr>nodes := []\<rparr>) = []"
    by simp
  from ranked_nodes_sorted_stable [of example_session memory]
       ranked_nodes_sorted_stable [of "example_session\<lparr>nodes := []\<rparr>" cpu] h1 h2 h3 example_ranked
  show ?thesis by auto
qed


subsection \<open>Endpoints\<close>

lemma endpoint_for_loop_Nil: "endpoint_for_loop fqdn [] = Inl (no_endpoint fqdn)"
  by (simp add: no_endpoint_def)

lemma endpoint_for_loop_Inl:
  "(endpoint_for_loop fqdn eps = Inl e) =
     (e = no_endpoint fqdn \<and> list_all (\<lambda>(d, ep). \<not> suffix d fqdn) eps)"
proof (induction eps)
  case Nil
  show ?case by (auto simp add: endpoint_for_loop_Nil simp del: endpoint_for_loop.simps)
next
  case (Cons a eps)
  obtain d ep where "a = (d, ep)" by (cases a)
  with Cons show ?case by simp
qed

lemma endpoint_for_loop_Inr:
  "(endpoint_for_loop fqdn eps = Inr ep) =
     (\<exists>before domain after. eps = before @ (domain, ep) # after \<and> suffix domain fqdn
        \<and> list_all (\<lambda>(d, e). \<not> suffix d fqdn) before)"
proof (induction eps)
  case Nil
  show ?case by simp
next
  case (Cons a eps)
  obtain d e where a: "a = (d, e)" by (cases a)
  show ?case
  proof (cases "suffix d fqdn")
    case True
    have "(\<exists>before domain after. (d, e) # eps = before @ (domain, ep) # after \<and> suffix domain fqdn
        \<and> list_all (\<lambda>(d, e). \<not> suffix d fqdn) before) = (e = ep)"
    proof
      assume "\<exists>before domain after. (d, e) # eps = before @ (domain, ep) # after \<and> suffix domain fqdn
        \<and> list_all (\<lambda>(d, e). \<not> suffix d fqdn) before"
      then obtain before domain after where
        eq: "(d, e) # eps = before @ (domain, ep) # after" and
        none: "list_all (\<lambda>(d, e). \<not> suffix d fqdn) before" by blast
      show "e = ep"
      proof (cases before)
        case Nil
        with eq show ?thesis by simp
      next
        case (Cons b bs)
        with eq have "b = (d, e)" by simp
        with Cons none True show ?thesis by simp
      qed
    next
      assume "e = ep"
      then have "(d, e) # eps = [] @ (d, ep) # eps \<and> list_all (\<lambda>(d, e). \<not> suffix d fqdn) []"
        by simp
      with True show "\<exists>before domain after. (d, e) # eps = before @ (domain, ep) # after \<and> suffix domain fqdn
        \<and> list_all (\<lambda>(d, e). \<not> suffix d fqdn) before"
        by blast
    qed
    with True a show ?thesis by simp
  next
    case False
    have "(\<exists>before domain after. (d, e) # eps = before @ (domain, ep) # after \<and> suffix domain fqdn
        \<and> list_all (\<lambda>(d, e). \<not> suffix d fqdn) before)
      = (\<exists>before domain after. eps = before @ (domain, ep) # after \<and> suffix domain fqdn
        \<and> list_all (\<lambda>(d, e). \<not> suffix d fqdn) before)"
    proof
      assume "\<exists>before domain after. (d, e) # eps = before @ (domain, ep) # after \<and> suffix domain fqdn
        \<and> list_all (\<lambda>(d, e). \<not> suffix d fqdn) before"
      then obtain before domain after where
        eq: "(d, e) # eps = before @ (domain, ep) # after" and
        suf: "suffix domain fqdn" and
        none: "list_all (\<lambda>(d, e). \<not> suffix d fqdn) before" by blast
      show "\<exists>before domain after. eps = before @ (domain, ep) # after \<and> suffix domain fqdn
        \<and> list_all (\<lambda>(d, e). \<not> suffix d fqdn) before"
      proof (cases before)
        case Nil
        with eq suf False show ?thesis by simp
      next
        case (Cons b bs)
        with eq have "eps = bs @ (domain, ep) # after" by simp
        moreover from Cons none have "list_all (\<lambda>(d, e). \<not> suffix d fqdn) bs" by simp
        ultimately show ?thesis using suf by blast
      qed
    next
      assume "\<exists>before domain after. eps = before @ (domain, ep) # after \<and> suffix domain fqdn
        \<and> list_all (\<lambda>(d, e). \<not> suffix d fqdn) before"
      then obtain before domain after where
        eq: "eps = before @ (domain, ep) # after" and
        suf: "suffix domain fqdn" and
        none: "list_all (\<lambda>(d, e). \<not> suffix d fqdn) before" by blast
      from eq have "(d, e) # eps = ((d, e) # before) @ (domain, ep) # after" by simp
      moreover from none False have "list_all (\<lambda>(d, e). \<not> suffix d fqdn) ((d, e) # before)" by simp
      ultimately show "\<exists>before domain after. (d, e) # eps = before @ (domain, ep) # after \<and> suffix domain fqdn
        \<and> list_all (\<lambda>(d, e). \<not> suffix d fqdn) before"
        using suf by blast
    qed
    with False a Cons show ?thesis by simp
  qed
qed

text \<open>
  The endpoints of a resource offer are registered in the order of its domains: a domain
  that occurs again keeps its first place in the dictionary.
\<close>

lemma dict_of_snoc: "dict_of (kvs @ [(k, v)]) = AList.update k v (dict_of kvs)"
  by (simp add: dict_of_def)

lemma endpoint_for_loop_update:
  "list_all (\<lambda>(d, e). e = new_endpoint d) eps \<Longrightarrow>
     endpoint_for_loop fqdn (AList.update k (new_endpoint k) eps) =
       (case endpoint_for_loop fqdn eps of
          Inr ep \<Rightarrow> Inr ep
        | Inl e \<Rightarrow> if suffix k fqdn then Inr (new_endpoint k) else Inl e)"
proof (induction eps)
  case Nil
  show ?case by simp
next
  case (Cons a eps)
  obtain d e where a: "a = (d, e)" by (cases a)
  with Cons.prems have e: "e = new_endpoint d" and rest: "list_all (\<lambda>(d, e). e = new_endpoint d) eps"
    by simp_all
  show ?case
  proof (cases "d = k")
    case True
    with a e show ?thesis by (simp split: sum.splits)
  next
    case False
    with a Cons.IH [OF rest] show ?thesis by (simp split: sum.splits)
  qed
qed

lemma dict_of_new_endpoints:
  "list_all (\<lambda>(d, e). e = new_endpoint d) (dict_of (map (\<lambda>dom. (dom, new_endpoint dom)) doms))"
proof (induction doms rule: rev_induct)
  case Nil
  show ?case by (simp add: dict_of_def)
next
  case (snoc d doms)
  have "list_all (\<lambda>(d, e). e = new_endpoint d) eps \<Longrightarrow>
        list_all (\<lambda>(d, e). e = new_endpoint d) (AList.update k (new_endpoint k) eps)" for k eps
    by (induction eps) auto
  with snoc show ?case by (simp add: dict_of_snoc)
qed

lemma endpoint_for_loop_dict_of:
  "endpoint_for_loop fqdn (dict_of (map (\<lambda>dom. (dom, new_endpoint dom)) doms)) =
     (case find (\<lambda>dom. suffix dom fqdn) doms of
        None \<Rightarrow> Inl (no_endpoint fqdn)
      | Some d \<Rightarrow> Inr (new_endpoint d))"
proof (induction doms rule: rev_induct)
  case Nil
  show ?case by (simp add: dict_of_def no_endpoint_def)
next
  case (snoc d doms)
  have "find (\<lambda>dom. suffix dom fqdn) (doms @ [d]) =
      (case find (\<lambda>dom. suffix dom fqdn) doms of
         Some x \<Rightarrow> Some x | None \<Rightarrow> if suffix d fqdn then Some d else None)"
    by (induction doms) auto
  with snoc show ?case
    by (simp add: dict_of_snoc endpoint_for_loop_update dict_of_new_endpoints split: option.splits)
qed

lemma endpoints_resource_offer:
  "endpoints (snd (resource_offer msg s)) =
     dict_of (map (\<lambda>dom. (dom, new_endpoint dom)) (offer_domains msg))"
  by (simp add: resource_offer_def andthen_def modify_def)

text \<open>
  C9. \<open>endpoint_for\<close> returns an endpoint exactly when it is registered under a domain that
  is a suffix of the name and no domain registered before it (earlier in the dictionary)
  is one: the first registered match wins, however long its domain. It fails exactly when
  no registered domain is a suffix of the name, and then with the \<open>ValueError\<close> of the
  method (the code's NotFound-style error). After a resource offer the order is that of
  the offer's domains: the endpoint returned is the one of the first domain of the offer
  that is a suffix of the name.
\<close>

theorem endpoint_for_first_registered:
  "((endpoint_for s fqdn = Inr ep) =
      (\<exists>before domain after. endpoints s = before @ (domain, ep) # after \<and> suffix domain fqdn
         \<and> list_all (\<lambda>(d, e). \<not> suffix d fqdn) before))
   \<and> ((endpoint_for s fqdn = Inl e) =
        (e = no_endpoint fqdn \<and> list_all (\<lambda>(d, ep). \<not> suffix d fqdn) (endpoints s)))
   \<and> endpoint_for (snd (resource_offer msg s)) fqdn =
       (case find (\<lambda>dom. suffix dom fqdn) (offer_domains msg) of
          None \<Rightarrow> Inl (no_endpoint fqdn)
        | Some d \<Rightarrow> Inr (new_endpoint d))"
  by (simp add: endpoint_for_def endpoint_for_loop_Inr endpoint_for_loop_Inl
      endpoints_resource_offer endpoint_for_loop_dict_of)

text \<open>
  The name \<open>a.b.my.com\<close>: with \<open>my.com\<close> alone registered; with \<open>my.com\<close> registered before
  \<open>b.my.com\<close>; and with \<open>b.my.com\<close> registered first. No endpoint serves \<open>other.org\<close>.
\<close>

theorem endpoint_for_first_registered_witness:
  "endpoint_for (example_session\<lparr>endpoints := [(''my.com'', new_endpoint ''my.com'')]\<rparr>) ''a.b.my.com''
     = Inr (new_endpoint ''my.com'')
   \<and> endpoint_for (snd (resource_offer
        \<lparr>offer_domains = [''my.com'', ''b.my.com''], offer_nodes = [], offer_volumes = []\<rparr>
        example_session)) ''a.b.my.com'' = Inr (new_endpoint ''my.com'')
   \<and> endpoint_for (snd (resource_offer
        \<lparr>offer_domains = [''b.my.com'', ''my.com''], offer_nodes = [], offer_volumes = []\<rparr>
        example_session)) ''a.b.my.com'' = Inr (new_endpoint ''b.my.com'')
   \<and> endpoint_for (snd (resource_offer
        \<lparr>offer_domains = [''b.my.com'', ''my.com''], offer_nodes = [], offer_volumes = []\<rparr>
        example_session)) ''other.org'' = Inl (no_endpoint ''other.org'')"
proof -
  have a: "endpoint_for (example_session\<lparr>endpoints := [(''my.com'', new_endpoint ''my.com'')]\<rparr>) ''a.b.my.com''
     = Inr (new_endpoint ''my.com'')"
    by (simp add: endpoint_for_def suffix_to_prefix)
  from a endpoint_for_first_registered [of example_session "''a.b.my.com''" "new_endpoint ''my.com''"
         "no_endpoint ''a.b.my.com''"
         "\<lparr>offer_domains = [''my.com'', ''b.my.com''], offer_nodes = [], offer_volumes = []\<rparr>"]
       endpoint_for_first_registered [of example_session "''a.b.my.com''" "new_endpoint ''my.com''"
         "no_endpoint ''a.b.my.com''"
         "\<lparr>offer_domains = [''b.my.com'', ''my.com''], offer_nodes = [], offer_volumes = []\<rparr>"]
       endpoint_for_first_registered [of example_session "''other.org''" "new_endpoint ''my.com''"
         "no_endpoint ''a.b.my.com''"
         "\<lparr>offer_domains = [''b.my.com'', ''my.com''], offer_nodes = [], offer_volumes = []\<rparr>"]
  show ?thesis by (simp add: suffix_to_prefix)
qed


subsection \<open>Proxy events\<close>

lemmas proc_simps = ret_def raise_def andthen_def modify_def logging_def call_def conn_call_def
  except_KeyError_def tunnels_getitem_def tunnels_delitem_def traced_def Let_def

lemma forward_unknown:
  assumes "map_of (tunnels s) k = None"
  shows "except_KeyError (andthen (tunnels_getitem k) f) (logging l m) s
           = (Inr (), traced s [Log l m])"
  using assms by (simp add: proc_simps)

lemma forward_known:
  assumes "map_of (tunnels s) k = Some t"
  shows "except_KeyError (andthen (tunnels_getitem k) (\<lambda>tunnel. call env (e tunnel))) (logging l m) s
           = (if raises env (e t) = None then (Inr (), traced s [e t])
              else if raises env (e t) = Some KeyError then (Inr (), traced s [e t, Log l m])
              else (Inl (the (raises env (e t))), traced s [e t]))"
proof (cases "raises env (e t)")
  case None
  with assms show ?thesis by (simp add: proc_simps)
next
  case (Some err)
  with assms show ?thesis by (cases err) (simp_all add: proc_simps)
qed

text \<open>
  C7. A \<open>from_proxy\<close> or \<open>close_proxy\<close> event whose uuid is not in the tunnels registry
  is swallowed: the handler returns normally, and the session is as before but for one
  debug line of logging. When the uuid is in the registry the event is forwarded to the
  tunnel registered under it; the handler returns normally unless the tunnel's method
  raises (a \<open>KeyError\<close> from it is swallowed like the missing key, any other exception is
  the handler's). In every case the tunnels registry is unchanged.
\<close>

theorem proxy_events_tolerate_unknown_uuid:
  "(map_of (tunnels s) (msg_uuid msg) = None \<longrightarrow>
      from_proxy env msg s = (Inr (), traced s [proxy_closed])
      \<and> close_proxy env msg s = (Inr (), traced s [proxy_closed_twice]))
   \<and> (map_of (tunnels s) (msg_uuid msg) = Some t \<longrightarrow>
      from_proxy env msg s =
        (if raises env (Tunnel_from_proxy t msg) = None
           then (Inr (), traced s [Tunnel_from_proxy t msg])
         else if raises env (Tunnel_from_proxy t msg) = Some KeyError
           then (Inr (), traced s [Tunnel_from_proxy t msg, proxy_closed])
         else (Inl (the (raises env (Tunnel_from_proxy t msg))), traced s [Tunnel_from_proxy t msg]))
      \<and> close_proxy env msg s =
        (if raises env (Tunnel_close_proxy t msg) = None
           then (Inr (), traced s [Tunnel_close_proxy t msg])
         else if raises env (Tunnel_close_proxy t msg) = Some KeyError
           then (Inr (), traced s [Tunnel_close_proxy t msg, proxy_closed_twice])
         else (Inl (the (raises env (Tunnel_close_proxy t msg))), traced s [Tunnel_close_proxy t msg])))
   \<and> tunnels (snd (from_proxy env msg s)) = tunnels s
   \<and> tunnels (snd (close_proxy env msg s)) = tunnels s"
proof -
  have unknown: "map_of (tunnels s) (msg_uuid msg) = None \<longrightarrow>
      from_proxy env msg s = (Inr (), traced s [proxy_closed])
      \<and> close_proxy env msg s = (Inr (), traced s [proxy_closed_twice])"
    by (simp add: from_proxy_def close_proxy_def forward_unknown proxy_closed_def proxy_closed_twice_def)
  have known: "map_of (tunnels s) (msg_uuid msg) = Some t \<longrightarrow>
      from_proxy env msg s =
        (if raises env (Tunnel_from_proxy t msg) = None
           then (Inr (), traced s [Tunnel_from_proxy t msg])
         else if raises env (Tunnel_from_proxy t msg) = Some KeyError
           then (Inr (), traced s [Tunnel_from_proxy t msg, proxy_closed])
         else (Inl (the (raises env (Tunnel_from_proxy t msg))), traced s [Tunnel_from_proxy t msg]))
      \<and> close_proxy env msg s =
        (if raises env (Tunnel_close_proxy t msg) = None
           then (Inr (), traced s [Tunnel_close_proxy t msg])
         else if raises env (Tunnel_close_proxy t msg) = Some KeyError
           then (Inr (), traced s [Tunnel_close_proxy t msg, proxy_closed_twice])
         else (Inl (the (raises env (Tunnel_close_proxy t msg))), traced s [Tunnel_close_proxy t msg]))"
    unfolding from_proxy_def close_proxy_def proxy_closed_def proxy_closed_twice_def
    using forward_known [of s "msg_uuid msg" t env "\<lambda>tunnel. Tunnel_from_proxy tunnel msg"]
          forward_known [of s "msg_uuid msg" t env "\<lambda>tunnel. Tunnel_close_proxy tunnel msg"]
    by simp
  have same: "tunnels (snd (from_proxy env msg s)) = tunnels s
            \<and> tunnels (snd (close_proxy env msg s)) = tunnels s"
  proof (cases "map_of (tunnels s) (msg_uuid msg)")
    case None
    with unknown show ?thesis by (simp add: traced_def)
  next
    case (Some t')
    then show ?thesis
      unfolding from_proxy_def close_proxy_def
      using forward_known [of s "msg_uuid msg" t' env "\<lambda>tunnel. Tunnel_from_proxy tunnel msg"]
          forward_known [of s "msg_uuid msg" t' env "\<lambda>tunnel. Tunnel_close_proxy tunnel msg"]
      by (simp add: traced_def)
  qed
  from unknown known same show ?thesis by blast
qed

text \<open>An event for the unregistered uuid \<open>t9\<close>, and one for the registered \<open>t1\<close>.\<close>

theorem proxy_events_tolerate_unknown_uuid_witness:
  "map_of (tunnels example_session) ''t9'' = None
   \<and> from_proxy no_failures \<lparr>msg_uuid = ''t9'', msg_bulk = ''data''\<rparr> example_session
       = (Inr (), traced example_session [proxy_closed])
   \<and> close_proxy no_failures \<lparr>msg_uuid = ''t9'', msg_bulk = ''data''\<rparr> example_session
       = (Inr (), traced example_session [proxy_closed_twice])
   \<and> map_of (tunnels example_session) ''t1'' = Some example_tunnel
   \<and> from_proxy no_failures \<lparr>msg_uuid = ''t1'', msg_bulk = ''data''\<rparr> example_session
       = (Inr (), traced example_session
            [Tunnel_from_proxy example_tunnel \<lparr>msg_uuid = ''t1'', msg_bulk = ''data''\<rparr>])"
proof -
  have h1: "map_of (tunnels example_session) ''t9'' = None"
    by (simp add: example_session_def)
  have h2: "map_of (tunnels example_session) ''t1'' = Some example_tunnel"
    by (simp add: example_session_def)
  from h1 h2
    proxy_events_tolerate_unknown_uuid [of example_session "\<lparr>msg_uuid = ''t9'', msg_bulk = ''data''\<rparr>"
      no_failures example_tunnel]
    proxy_events_tolerate_unknown_uuid [of example_session "\<lparr>msg_uuid = ''t1'', msg_bulk = ''data''\<rparr>"
      no_failures example_tunnel]
  show ?thesis by (simp add: no_failures_def)
qed

subsection \<open>Destroying a tunnel\<close>

text \<open>
  C6. With a container as guard: when the tunnel does not belong to that container,
  \<open>_destroy_tunnel\<close> fails with a \<open>ValueError\<close> and leaves the whole session, the tunnels
  registry included, as it was; the tunnel's \<open>destroy\<close> is not called. When the tunnel is
  registered and belongs to the container, \<open>destroy\<close> is called once; if it returns, the
  entry of the tunnel, and no other, is removed from the registry, and a second call
  with the same tunnel removes nothing more (it fails with \<open>KeyError\<close>); if \<open>destroy\<close>
  raises, that exception is the method's and the registry is unchanged.
\<close>

theorem destroy_tunnel_guard:
  "(tunnel_container t \<noteq> c \<longrightarrow> destroy_tunnel env t (Some c) s = (Inl wrong_container, s))
   \<and> (tunnel_container t = c \<and> map_of (tunnels s) (tunnel_uuid t) = Some t \<longrightarrow>
       (case raises env (Tunnel_destroy t) of
          Some err \<Rightarrow> destroy_tunnel env t (Some c) s = (Inl err, traced s [Tunnel_destroy t])
        | None \<Rightarrow>
            destroy_tunnel env t (Some c) s =
              (Inr (), traced (s\<lparr>tunnels := AList.delete (tunnel_uuid t) (tunnels s)\<rparr>) [Tunnel_destroy t])
            \<and> map_of (AList.delete (tunnel_uuid t) (tunnels s))
                = (map_of (tunnels s)) (tunnel_uuid t := None)
            \<and> destroy_tunnel env t (Some c)
                (traced (s\<lparr>tunnels := AList.delete (tunnel_uuid t) (tunnels s)\<rparr>) [Tunnel_destroy t])
              = (Inl KeyError,
                 traced (s\<lparr>tunnels := AList.delete (tunnel_uuid t) (tunnels s)\<rparr>)
                   [Tunnel_destroy t, Tunnel_destroy t])))"
proof (intro conjI impI)
  assume "tunnel_container t \<noteq> c"
  then show "destroy_tunnel env t (Some c) s = (Inl wrong_container, s)"
    by (simp add: destroy_tunnel_def wrong_container_def proc_simps)
next
  assume h: "tunnel_container t = c \<and> map_of (tunnels s) (tunnel_uuid t) = Some t"
  have gone: "map_of (AList.delete (tunnel_uuid t) (tunnels s)) (tunnel_uuid t) = None"
    by (simp add: delete_conv)
  show "case raises env (Tunnel_destroy t) of
          Some err \<Rightarrow> destroy_tunnel env t (Some c) s = (Inl err, traced s [Tunnel_destroy t])
        | None \<Rightarrow>
            destroy_tunnel env t (Some c) s =
              (Inr (), traced (s\<lparr>tunnels := AList.delete (tunnel_uuid t) (tunnels s)\<rparr>) [Tunnel_destroy t])
            \<and> map_of (AList.delete (tunnel_uuid t) (tunnels s))
                = (map_of (tunnels s)) (tunnel_uuid t := None)
            \<and> destroy_tunnel env t (Some c)
                (traced (s\<lparr>tunnels := AList.delete (tunnel_uuid t) (tunnels s)\<rparr>) [Tunnel_destroy t])
              = (Inl KeyError,
                 traced (s\<lparr>tunnels := AList.delete (tunnel_uuid t) (tunnels s)\<rparr>)
                   [Tunnel_destroy t, Tunnel_destroy t])"
  proof (cases "raises env (Tunnel_destroy t)")
    case (Some err)
    with h show ?thesis by (simp add: destroy_tunnel_def proc_simps)
  next
    case None
    with h gone show ?thesis
      by (simp add: destroy_tunnel_def proc_simps delete_conv')
  qed
qed

text \<open>The registered tunnel of container \<open>c1\<close>, with \<open>c2\<close> and with \<open>c1\<close> as guard.\<close>

theorem destroy_tunnel_guard_witness:
  "tunnel_container example_tunnel \<noteq> other_container
   \<and> destroy_tunnel no_failures example_tunnel (Some other_container) example_session
       = (Inl wrong_container, example_session)
   \<and> tunnel_container example_tunnel = example_container
   \<and> map_of (tunnels example_session) (tunnel_uuid example_tunnel) = Some example_tunnel
   \<and> destroy_tunnel no_failures example_tunnel (Some example_container) example_session
       = (Inr (), traced (example_session\<lparr>tunnels := []\<rparr>) [Tunnel_destroy example_tunnel])"
proof -
  have h1: "tunnel_container example_tunnel \<noteq> other_container"
    by (simp add: example_tunnel_def other_container_def example_container_def)
  have h2: "tunnel_container example_tunnel = example_container"
    by (simp add: example_tunnel_def)
  have h3: "map_of (tunnels example_session) (tunnel_uuid example_tunnel) = Some example_tunnel"
    by (simp add: example_session_def example_tunnel_def)
  have d: "AList.delete (tunnel_uuid example_tunnel) (tunnels example_session) = []"
    by (simp add: example_session_def example_tunnel_def)
  from h1 h2 h3 d
    destroy_tunnel_guard [of example_tunnel other_container no_failures example_session]
    destroy_tunnel_guard [of example_tunnel example_container no_failures example_session]
  show ?thesis by (simp add: no_failures_def)
qed


subsection \<open>Heartbeat\<close>

lemma heartbeat_noop:
  "now1 - last_heartbeat s < 60 \<Longrightarrow> heartbeat env now1 now2 s = (Inr (), s)"
  by (simp add: heartbeat_def ret_def)

lemma heartbeat_due:
  assumes "\<not> now1 - last_heartbeat s < 60"
  shows "heartbeat env now1 now2 s =
     (case conn s of
        None \<Rightarrow> (Inl AttributeError, s\<lparr>last_heartbeat := now2\<rparr>)
      | Some c \<Rightarrow>
          (case raises env keepalive of None \<Rightarrow> Inr () | Some err \<Rightarrow> Inl err,
           traced (s\<lparr>last_heartbeat := now2\<rparr>) [keepalive]))"
  using assms
  by (simp add: heartbeat_def keepalive_def proc_simps split: option.splits)

lemma idle_ticks_quiet:
  "start \<le> last_heartbeat s \<Longrightarrow> list_all (in_window start) ticks \<Longrightarrow> idle_ticks env ticks s = s"
proof (induction ticks)
  case Nil
  show ?case by simp
next
  case (Cons tick ticks)
  obtain now1 now2 where tick: "tick = (now1, now2)" by (cases tick)
  with Cons.prems have "in_window start (now1, now2)"
    by simp
  with Cons.prems have "now1 - last_heartbeat s < 60"
    by (simp add: in_window_def)
  with tick Cons show ?case
    by (simp add: heartbeat_noop)
qed

lemma heartbeats_sent_traced:
  "heartbeats_sent (traced s es) = heartbeats_sent s + length (filter (\<lambda>e. e = keepalive) es)"
  by (simp add: heartbeats_sent_def traced_def keepalive_def)

lemma idle_ticks_at_most_one:
  "list_all (in_window start) ticks \<Longrightarrow>
     heartbeats_sent (idle_ticks env ticks s) \<le> heartbeats_sent s + 1"
proof (induction ticks arbitrary: s)
  case Nil
  show ?case by simp
next
  case (Cons tick ticks)
  obtain now1 now2 where tick: "tick = (now1, now2)" by (cases tick)
  from Cons.prems tick have head: "in_window start (now1, now2)"
    and rest: "list_all (in_window start) ticks"
    by simp_all
  from head have win: "start \<le> now2"
    by (simp add: in_window_def)
  show ?case
  proof (cases "now1 - last_heartbeat s < 60")
    case True
    with tick Cons.IH [OF rest, of s] show ?thesis
      by (simp add: heartbeat_noop)
  next
    case False
    let ?s' = "snd (heartbeat env now1 now2 s)"
    from False have last: "last_heartbeat ?s' = now2"
      by (simp add: heartbeat_due traced_def split: option.splits)
    from False have sent: "heartbeats_sent ?s' \<le> heartbeats_sent s + 1"
      by (simp add: heartbeat_due heartbeats_sent_traced split: option.splits)
      (simp add: heartbeats_sent_def)
    from last win rest have "idle_ticks env ticks ?s' = ?s'"
      by (simp add: idle_ticks_quiet)
    with tick sent show ?thesis by simp
  qed
qed

text \<open>
  C8. An invocation of \<open>_heartbeat\<close> less than 60 seconds after the last heartbeat
  timestamp does nothing. Otherwise, on a connected session, it sets the timestamp to the
  current time and sends one \<open>heartbeat\<close> command, fire-and-forget (an exception of the
  send is the method's; the timestamp stays set). Over any sequence of idle ticks whose
  clock readings all lie within one window of 60 seconds, at most one heartbeat command
  is sent, whatever the session was before.
\<close>

theorem heartbeat_once_per_window:
  "(now1 - last_heartbeat s < 60 \<longrightarrow> heartbeat env now1 now2 s = (Inr (), s))
   \<and> (\<not> now1 - last_heartbeat s < 60 \<and> conn s \<noteq> None \<longrightarrow>
        heartbeat env now1 now2 s =
          (case raises env keepalive of None \<Rightarrow> Inr () | Some err \<Rightarrow> Inl err,
           traced (s\<lparr>last_heartbeat := now2\<rparr>) [keepalive]))
   \<and> (list_all (in_window start) ticks \<longrightarrow>
        heartbeats_sent (idle_ticks env ticks s) \<le> heartbeats_sent s + 1)"
proof (intro conjI impI)
  assume "now1 - last_heartbeat s < 60"
  then show "heartbeat env now1 now2 s = (Inr (), s)"
    by (rule heartbeat_noop)
next
  assume "\<not> now1 - last_heartbeat s < 60 \<and> conn s \<noteq> None"
  then show "heartbeat env now1 now2 s =
          (case raises env keepalive of None \<Rightarrow> Inr () | Some err \<Rightarrow> Inl err,
           traced (s\<lparr>last_heartbeat := now2\<rparr>) [keepalive])"
    by (auto simp add: heartbeat_due)
next
  assume "list_all (in_window start) ticks"
  then show "heartbeats_sent (idle_ticks env ticks s) \<le> heartbeats_sent s + 1"
    by (rule idle_ticks_at_most_one)
qed

text \<open>
  Three ticks at 100, 130 and 159 seconds, the last heartbeat at 0: the first tick sends,
  the other two do nothing.
\<close>

lemma example_ticks:
  "idle_ticks no_failures [(100, 101), (130, 130), (159, 159)] example_session
     = traced (example_session\<lparr>last_heartbeat := 101\<rparr>) [keepalive]"
  by (simp add: heartbeat_def keepalive_def proc_simps example_session_def no_failures_def)

theorem heartbeat_once_per_window_witness:
  "130 - last_heartbeat (example_session\<lparr>last_heartbeat := 101\<rparr>) < 60
   \<and> heartbeat no_failures 130 130 (example_session\<lparr>last_heartbeat := 101\<rparr>)
       = (Inr (), example_session\<lparr>last_heartbeat := 101\<rparr>)
   \<and> \<not> 100 - last_heartbeat example_session < 60 \<and> conn example_session \<noteq> None
   \<and> heartbeat no_failures 100 101 example_session
       = (Inr (), traced (example_session\<lparr>last_heartbeat := 101\<rparr>) [keepalive])
   \<and> list_all (in_window 100) [(100, 101), (130, 130), (159, 159)]
   \<and> heartbeats_sent example_session = 0
   \<and> heartbeats_sent
       (idle_ticks no_failures [(100, 101), (130, 130), (159, 159)] example_session) = 1"
proof -
  have h1: "130 - last_heartbeat (example_session\<lparr>last_heartbeat := 101\<rparr>) < 60"
    by simp
  have h2: "\<not> 100 - last_heartbeat example_session < 60 \<and> conn example_session \<noteq> None"
    by (simp add: example_session_def)
  have h3: "list_all (in_window 100) [(100, 101), (130, 130), (159, 159)]"
    by (simp add: in_window_def)
  have c0: "heartbeats_sent example_session = 0"
    by (simp add: heartbeats_sent_def example_session_def)
  have c1: "heartbeats_sent
       (idle_ticks no_failures [(100, 101), (130, 130), (159, 159)] example_session) = 1"
    unfolding example_ticks
    by (simp add: heartbeats_sent_def traced_def keepalive_def example_session_def)
  from h1 h2 h3 c0 c1
    heartbeat_once_per_window [of 130 "example_session\<lparr>last_heartbeat := 101\<rparr>" no_failures 130
      100 "[(100, 101), (130, 130), (159, 159)]"]
    heartbeat_once_per_window [of 100 example_session no_failures 101
      100 "[(100, 101), (130, 130), (159, 159)]"]
  show ?thesis by (simp add: no_failures_def)
qed


subsection \<open>Destroying a volume\<close>

text \<open>
  A volume that the registry does not know: when the location rejects the command, the
  error is the location's, and on a disconnected session it is an \<open>AttributeError\<close>;
  neither is the NotFound error. The destroy command is sent for the unknown volume.
\<close>

theorem destroy_volume_unknown_not_always_NotFound:
  "unknown_volume \<notin> volumes example_session
   \<and> destroy_volume remote_rejects (Volume_object unknown_volume) example_session
       = (Inl (ValueError ''rejected by the location''),
          traced example_session [destroy_cmd example_session unknown_volume])
   \<and> unknown_volume \<notin> volumes (example_session\<lparr>conn := None\<rparr>)
   \<and> destroy_volume no_failures (Volume_object unknown_volume) (example_session\<lparr>conn := None\<rparr>)
       = (Inl AttributeError, example_session\<lparr>conn := None\<rparr>)"
  by (simp add: destroy_volume_def destroy_cmd_def proc_simps remote_rejects_def no_failures_def
      example_session_def unknown_volume_def example_volume_def)

text \<open>
  C5, as the code has it. An argument that is not a \<open>Volume\<close> raises \<open>TypeError\<close>. On a
  connected session, \<open>destroy_volume\<close> first sends the blocking destroy command, whether
  the registry knows the volume or not. When the command is rejected, its error is the
  method's and the registry is unchanged. When it succeeds, a known volume is removed
  from the registry, and only that volume; for an unknown volume the removal fails with
  the NotFound error and the registry is unchanged.
\<close>

theorem destroy_volume_remote_first:
  "destroy_volume env Other_object s = (Inl TypeError, s)
   \<and> (conn s \<noteq> None \<longrightarrow>
        destroy_volume env (Volume_object v) s =
          (case raises env (destroy_cmd s v) of
             Some err \<Rightarrow> (Inl err, traced s [destroy_cmd s v])
           | None \<Rightarrow>
               if v \<in> volumes s
               then (Inr (), traced (s\<lparr>volumes := volumes s - {v}\<rparr>) [destroy_cmd s v, destroyed_log v])
               else (Inl NotFoundError, traced s [destroy_cmd s v, destroyed_log v])))"
  by (auto simp add: destroy_volume_def destroy_cmd_def destroyed_log_def volumes_remove_def
      proc_simps split: option.splits)

text \<open>The known volume \<open>v1\<close> and the unknown volume \<open>v2\<close>, at a location that accepts.\<close>

theorem destroy_volume_remote_first_witness:
  "conn example_session \<noteq> None
   \<and> destroy_volume no_failures (Volume_object example_volume) example_session
      = (Inr (), traced (example_session\<lparr>volumes := {}\<rparr>)
           [destroy_cmd example_session example_volume, destroyed_log example_volume])
   \<and> destroy_volume no_failures (Volume_object unknown_volume) example_session
      = (Inl NotFoundError, traced example_session
           [destroy_cmd example_session unknown_volume, destroyed_log unknown_volume])"
proof -
  have h: "conn example_session \<noteq> None"
    by (simp add: example_session_def)
  have k: "example_volume \<in> volumes example_session \<and> unknown_volume \<notin> volumes example_session"
    by (simp add: example_session_def unknown_volume_def example_volume_def)
  have d: "example_session\<lparr>volumes := volumes example_session - {example_volume}\<rparr>
             = example_session\<lparr>volumes := {}\<rparr>"
    by (simp add: example_session_def)
  from h k d
    destroy_volume_remote_first [of no_failures example_session example_volume]
    destroy_volume_remote_first [of no_failures example_session unknown_volume]
  show ?thesis by (simp add: no_failures_def)
qed

subsection \<open>Opening a tunnel\<close>

lemma to_int_converted:
  "converted env p = Some p' \<Longrightarrow> to_int env p s = (Inr p', s)"
  by (auto simp add: converted_def to_int_def ret_def split: port.splits option.splits)

lemma registered_lookup: "map_of (tunnels (registered s c t)) (tunnel_uuid t) = Some t"
  by (simp add: registered_def traced_def update_conv')

lemma tunnels_traced: "tunnels (traced s es) = tunnels s"
  by (simp add: traced_def)

lemma append_traced: "traced (traced s a) b = traced s (a @ b)"
  by (simp add: traced_def)

text \<open>One event for a registered uuid, and one for an unregistered uuid.\<close>

lemma dispatch_registered:
  assumes "map_of (tunnels s) (push_uuid ev) = Some t"
  shows "snd (dispatch env ev s) = traced s (forwarded env t ev)"
proof (cases ev)
  case (From_proxy msg)
  with assms have "map_of (tunnels s) (msg_uuid msg) = Some t" by simp
  from forward_known [OF this, of env "\<lambda>tunnel. Tunnel_from_proxy tunnel msg"] From_proxy
  show ?thesis
    by (simp add: from_proxy_def proxy_closed_def)
next
  case (Close_proxy msg)
  with assms have "map_of (tunnels s) (msg_uuid msg) = Some t" by simp
  from forward_known [OF this, of env "\<lambda>tunnel. Tunnel_close_proxy tunnel msg"] Close_proxy
  show ?thesis
    by (simp add: close_proxy_def proxy_closed_twice_def)
qed

lemma dispatch_unregistered:
  assumes "map_of (tunnels s) (push_uuid ev) = None"
  shows "snd (dispatch env ev s) = traced s [dropped ev]"
proof (cases ev)
  case (From_proxy msg)
  with assms show ?thesis
    by (simp add: from_proxy_def forward_unknown proxy_closed_def)
next
  case (Close_proxy msg)
  with assms show ?thesis
    by (simp add: close_proxy_def forward_unknown proxy_closed_twice_def)
qed

text \<open>A sequence of events for one uuid: all forwarded when it is registered, all dropped when not.\<close>

lemma deliver_registered:
  "map_of (tunnels s) (tunnel_uuid t) = Some t \<Longrightarrow>
   list_all (\<lambda>ev. push_uuid ev = tunnel_uuid t) evs \<Longrightarrow>
     deliver env evs s = traced s (concat (map (forwarded env t) evs))"
proof (induction evs arbitrary: s)
  case Nil
  show ?case by (simp add: traced_def)
next
  case (Cons ev evs)
  from Cons.prems have here: "map_of (tunnels s) (push_uuid ev) = Some t"
    and rest: "list_all (\<lambda>ev. push_uuid ev = tunnel_uuid t) evs"
    by simp_all
  have step: "snd (dispatch env ev s) = traced s (forwarded env t ev)"
    using here by (rule dispatch_registered)
  from Cons.prems(1) have "map_of (tunnels (traced s (forwarded env t ev))) (tunnel_uuid t) = Some t"
    by (simp add: tunnels_traced)
  from Cons.IH [OF this rest] step show ?case
    by (simp add: append_traced)
qed

lemma deliver_unregistered:
  "map_of (tunnels s) u = None \<Longrightarrow> list_all (\<lambda>ev. push_uuid ev = u) evs \<Longrightarrow>
     deliver env evs s = traced s (map dropped evs)"
proof (induction evs arbitrary: s)
  case Nil
  show ?case by (simp add: traced_def)
next
  case (Cons ev evs)
  from Cons.prems have here: "map_of (tunnels s) (push_uuid ev) = None"
    and rest: "list_all (\<lambda>ev. push_uuid ev = u) evs"
    by simp_all
  have step: "snd (dispatch env ev s) = traced s [dropped ev]"
    using here by (rule dispatch_unregistered)
  from Cons.prems(1) have "map_of (tunnels (traced s [dropped ev])) u = None"
    by (simp add: tunnels_traced)
  from Cons.IH [OF this rest] step show ?case
    by (simp add: append_traced)
qed

lemma tunnel_onto_connects:
  assumes "converted env port = Some port'" and "converted env localport = Some localport'"
    and "raises env (Container_wait_until_ready (container_uuid container)) = None"
  shows "tunnel_onto env arriving container port localport bind s =
           (andthen (connect env arriving (new_tunnel env container port' localport' bind))
              (\<lambda>_. ret (new_tunnel env container port' localport' bind)))
             (registered s container (new_tunnel env container port' localport' bind))"
proof -
  let ?t = "new_tunnel env container port' localport' bind"
  have waited: "call env (Container_wait_until_ready (container_uuid container)) s
      = (Inr (), traced s [Container_wait_until_ready (container_uuid container)])"
    using assms(3) by (simp add: call_def traced_def)
  have assigned: "modify (\<lambda>s. s\<lparr>tunnels := AList.update (tunnel_uuid ?t) ?t (tunnels s)\<rparr>)
        (traced s [Container_wait_until_ready (container_uuid container)])
      = (Inr (), registered s container ?t)"
    by (simp add: modify_def registered_def traced_def)
  show ?thesis
    using assms(1,2) waited assigned
    by (simp add: tunnel_onto_def to_int_converted andthen_def Let_def)
qed

text \<open>
  C4, as the code has it. When the port arguments convert and the container becomes
  ready, \<open>_tunnel_onto\<close> puts the new tunnel into the registry under its uuid and only
  then calls \<open>tunnel.connect()\<close>: every proxy event for that uuid that the event loop
  handles while \<open>connect\<close> runs finds the tunnel and is forwarded to it, none is dropped.
  (Handled on the session as it was before the method, where the uuid is not registered,
  the same events would all be dropped with a debug line.) When \<open>connect\<close> raises, the
  exception is the method's; with or without it, the tunnel is in the registry afterwards.
\<close>

theorem tunnel_registered_before_connect:
  "converted env port = Some port' \<and> converted env localport = Some localport'
   \<and> raises env (Container_wait_until_ready (container_uuid container)) = None
   \<and> t = new_tunnel env container port' localport' bind
   \<and> list_all (\<lambda>ev. push_uuid ev = tunnel_uuid t) arriving \<longrightarrow>
     tunnel_onto env arriving container port localport bind s =
       (case raises env (Tunnel_connect t) of None \<Rightarrow> Inr t | Some err \<Rightarrow> Inl err,
        traced (registered s container t)
          (Tunnel_connect t # concat (map (forwarded env t) arriving)))
     \<and> map_of (tunnels (registered s container t)) (tunnel_uuid t) = Some t
     \<and> map_of (tunnels (snd (tunnel_onto env arriving container port localport bind s)))
         (tunnel_uuid t) = Some t
     \<and> (map_of (tunnels s) (tunnel_uuid t) = None \<longrightarrow>
          deliver env arriving s = traced s (map dropped arriving))"
proof (intro impI)
  assume h: "converted env port = Some port' \<and> converted env localport = Some localport'
   \<and> raises env (Container_wait_until_ready (container_uuid container)) = None
   \<and> t = new_tunnel env container port' localport' bind
   \<and> list_all (\<lambda>ev. push_uuid ev = tunnel_uuid t) arriving"
  let ?s1 = "registered s container t"
  have look: "map_of (tunnels ?s1) (tunnel_uuid t) = Some t"
    by (rule registered_lookup)
  then have connecting: "map_of (tunnels (traced ?s1 [Tunnel_connect t])) (tunnel_uuid t) = Some t"
    by (simp add: tunnels_traced)
  from h have mine: "list_all (\<lambda>ev. push_uuid ev = tunnel_uuid t) arriving"
    by blast
  have during: "deliver env arriving (traced ?s1 [Tunnel_connect t])
      = traced ?s1 (Tunnel_connect t # concat (map (forwarded env t) arriving))"
    using deliver_registered [OF connecting mine, of env] by (simp add: append_traced)
  have conn: "connect env arriving t ?s1 =
       (case raises env (Tunnel_connect t) of None \<Rightarrow> Inr () | Some err \<Rightarrow> Inl err,
        traced ?s1 (Tunnel_connect t # concat (map (forwarded env t) arriving)))"
    using during by (simp add: connect_def Let_def traced_def split: option.splits)
  from h have "tunnel_onto env arriving container port localport bind s =
      (andthen (connect env arriving t) (\<lambda>_. ret t)) ?s1"
    by (simp add: tunnel_onto_connects)
  with conn have whole: "tunnel_onto env arriving container port localport bind s =
       (case raises env (Tunnel_connect t) of None \<Rightarrow> Inr t | Some err \<Rightarrow> Inl err,
        traced ?s1 (Tunnel_connect t # concat (map (forwarded env t) arriving)))"
    by (simp add: andthen_def ret_def split: option.splits)
  have still: "map_of (tunnels (snd (tunnel_onto env arriving container port localport bind s)))
         (tunnel_uuid t) = Some t"
    using look by (simp add: whole tunnels_traced)
  have early: "map_of (tunnels s) (tunnel_uuid t) = None \<longrightarrow>
          deliver env arriving s = traced s (map dropped arriving)"
    using mine by (simp add: deliver_unregistered)
  from whole look still early
  show "tunnel_onto env arriving container port localport bind s =
       (case raises env (Tunnel_connect t) of None \<Rightarrow> Inr t | Some err \<Rightarrow> Inl err,
        traced ?s1 (Tunnel_connect t # concat (map (forwarded env t) arriving)))
     \<and> map_of (tunnels ?s1) (tunnel_uuid t) = Some t
     \<and> map_of (tunnels (snd (tunnel_onto env arriving container port localport bind s)))
         (tunnel_uuid t) = Some t
     \<and> (map_of (tunnels s) (tunnel_uuid t) = None \<longrightarrow>
          deliver env arriving s = traced s (map dropped arriving))"
    by blast
qed

text \<open>
  A location where \<open>connect\<close> fails: the error reaches the caller, and the tunnel \<open>t2\<close>,
  which was not registered before, is registered after.
\<close>

lemma connect_fails_example:
  "tunnel_onto connect_fails [] example_container (Port_int 80) Port_none None example_session
     = (Inl (ExternalError ''cannot connect''),
        traced (registered example_session example_container example_new_tunnel)
          [Tunnel_connect example_new_tunnel])"
  by (simp add: tunnel_onto_def connect_def to_int_def proc_simps connect_fails_def
      example_new_tunnel_def new_tunnel_def registered_def)

theorem tunnel_onto_failed_connect_stays_registered:
  "map_of (tunnels example_session) ''t2'' = None
   \<and> fst (tunnel_onto connect_fails [] example_container (Port_int 80) Port_none None example_session)
       = Inl (ExternalError ''cannot connect'')
   \<and> map_of (tunnels (snd (tunnel_onto connect_fails [] example_container (Port_int 80) Port_none None
        example_session))) ''t2'' = Some example_new_tunnel"
  by (simp add: connect_fails_example registered_def traced_def)
    (simp add: example_session_def example_new_tunnel_def new_tunnel_def connect_fails_def)

text \<open>
  A data event and a close event for the new tunnel \<open>t2\<close> arrive while \<open>connect\<close> runs:
  both reach the tunnel. In the session before the method both would be dropped.
\<close>

theorem tunnel_registered_before_connect_witness:
  "converted connect_fails (Port_int 80) = Some (Port_int 80)
   \<and> converted connect_fails Port_none = Some Port_none
   \<and> raises connect_fails (Container_wait_until_ready (container_uuid example_container)) = None
   \<and> list_all (\<lambda>ev. push_uuid ev = tunnel_uuid example_new_tunnel)
        [From_proxy \<lparr>msg_uuid = ''t2'', msg_bulk = ''data''\<rparr>,
         Close_proxy \<lparr>msg_uuid = ''t2'', msg_bulk = []\<rparr>]
   \<and> tunnel_onto connect_fails
        [From_proxy \<lparr>msg_uuid = ''t2'', msg_bulk = ''data''\<rparr>,
         Close_proxy \<lparr>msg_uuid = ''t2'', msg_bulk = []\<rparr>]
        example_container (Port_int 80) Port_none None example_session
       = (Inl (ExternalError ''cannot connect''),
          traced (registered example_session example_container example_new_tunnel)
            [Tunnel_connect example_new_tunnel,
             Tunnel_from_proxy example_new_tunnel \<lparr>msg_uuid = ''t2'', msg_bulk = ''data''\<rparr>,
             Tunnel_close_proxy example_new_tunnel \<lparr>msg_uuid = ''t2'', msg_bulk = []\<rparr>])
   \<and> map_of (tunnels (registered example_session example_container example_new_tunnel)) ''t2''
       = Some example_new_tunnel
   \<and> map_of (tunnels example_session) (tunnel_uuid example_new_tunnel) = None
   \<and> deliver connect_fails
        [From_proxy \<lparr>msg_uuid = ''t2'', msg_bulk = ''data''\<rparr>,
         Close_proxy \<lparr>msg_uuid = ''t2'', msg_bulk = []\<rparr>] example_session
       = traced example_session [proxy_closed, proxy_closed_twice]"
proof -
  have h: "converted connect_fails (Port_int 80) = Some (Port_int 80)
     \<and> converted connect_fails Port_none = Some Port_none
     \<and> raises connect_fails (Container_wait_until_ready (container_uuid example_container)) = None"
    by (simp add: converted_def connect_fails_def)
  have u: "tunnel_uuid example_new_tunnel = ''t2''"
    by (simp add: example_new_tunnel_def new_tunnel_def connect_fails_def)
  have n: "map_of (tunnels example_session) ''t2'' = None"
    by (simp add: example_session_def)
  have r: "raises connect_fails (Tunnel_connect example_new_tunnel) = Some (ExternalError ''cannot connect'')
     \<and> raises connect_fails (Tunnel_from_proxy example_new_tunnel \<lparr>msg_uuid = ''t2'', msg_bulk = ''data''\<rparr>) = None
     \<and> raises connect_fails (Tunnel_close_proxy example_new_tunnel \<lparr>msg_uuid = ''t2'', msg_bulk = []\<rparr>) = None"
    by (simp add: connect_fails_def)
  from h u n r
    tunnel_registered_before_connect [of connect_fails "Port_int 80" "Port_int 80" Port_none Port_none
      example_container example_new_tunnel None
      "[From_proxy \<lparr>msg_uuid = ''t2'', msg_bulk = ''data''\<rparr>,
        Close_proxy \<lparr>msg_uuid = ''t2'', msg_bulk = []\<rparr>]"
      example_session]
  show ?thesis by (simp add: example_new_tunnel_def)
qed

subsection \<open>Disconnecting\<close>

lemma traced_traced: "traced (traced s a) b = traced s (a @ b)"
  by (simp add: traced_def)

lemma call_traced: "\<exists>r. call env e s = (r, traced s [e])"
  by (simp add: call_def traced_def Let_def split: option.splits)

lemma for_each_call_traced:
  "\<exists>r es. for_each (\<lambda>x. call env (f x)) xs s = (r, traced s es)"
proof (induction xs arbitrary: s)
  case Nil
  have "for_each (\<lambda>x. call env (f x)) [] s = (Inr (), traced s [])"
    by (simp add: ret_def traced_def)
  then show ?case by blast
next
  case (Cons x xs)
  obtain r where c: "call env (f x) s = (r, traced s [f x])"
    using call_traced by blast
  show ?case
  proof (cases r)
    case (Inl e)
    with c have "for_each (\<lambda>x. call env (f x)) (x # xs) s = (Inl e, traced s [f x])"
      by (simp add: andthen_def)
    then show ?thesis by blast
  next
    case (Inr u)
    obtain r' es where "for_each (\<lambda>x. call env (f x)) xs (traced s [f x]) = (r', traced (traced s [f x]) es)"
      using Cons.IH by blast
    with c Inr have "for_each (\<lambda>x. call env (f x)) (x # xs) s = (r', traced s ([f x] @ es))"
      by (simp add: andthen_def traced_traced)
    then show ?thesis by blast
  qed
qed

lemma for_each_nested_traced:
  "\<exists>r es. for_each (\<lambda>x. for_each (\<lambda>y. call env (f x y)) (g x)) xs s = (r, traced s es)"
proof (induction xs arbitrary: s)
  case Nil
  have "for_each (\<lambda>x. for_each (\<lambda>y. call env (f x y)) (g x)) [] s = (Inr (), traced s [])"
    by (simp add: ret_def traced_def)
  then show ?case by blast
next
  case (Cons x xs)
  obtain r es where c: "for_each (\<lambda>y. call env (f x y)) (g x) s = (r, traced s es)"
    using for_each_call_traced [of env "f x" "g x" s] by blast
  show ?case
  proof (cases r)
    case (Inl e)
    with c have "for_each (\<lambda>x. for_each (\<lambda>y. call env (f x y)) (g x)) (x # xs) s = (Inl e, traced s es)"
      by (simp add: andthen_def)
    then show ?thesis by blast
  next
    case (Inr u)
    obtain r' es' where "for_each (\<lambda>x. for_each (\<lambda>y. call env (f x y)) (g x)) xs (traced s es)
        = (r', traced (traced s es) es')"
      using Cons.IH by blast
    with c Inr have "for_each (\<lambda>x. for_each (\<lambda>y. call env (f x y)) (g x)) (x # xs) s
        = (r', traced s (es @ es'))"
      by (simp add: andthen_def traced_traced)
    then show ?thesis by blast
  qed
qed

lemma disconnect_returns:
  assumes "conn s \<noteq> None" and "fst (disconnect env s) = Inr ()"
  shows "\<exists>es. disconnect env s = (Inr (), traced (disconnected s) es)"
proof -
  let ?s0 = "traced s [Log Info ''Disconnecting'']"
  obtain r1 es1 where 1:
    "for_each (\<lambda>endpoint. for_each (\<lambda>cluster. call env (Endpoint_unpublish (endpoint_domain endpoint) cluster))
                 (map snd (clusters endpoint))) (map snd (endpoints s)) ?s0 = (r1, traced ?s0 es1)"
    using for_each_nested_traced [of env "\<lambda>endpoint cluster. Endpoint_unpublish (endpoint_domain endpoint) cluster"
        "\<lambda>endpoint. map snd (clusters endpoint)" "map snd (endpoints s)" ?s0]
    by blast
  let ?s1 = "(traced ?s0 es1)\<lparr>endpoints := []\<rparr>"
  obtain r2 es2 where 2:
    "for_each (\<lambda>tunnel. call env (Tunnel_destroy tunnel)) (map snd (tunnels s)) ?s1 = (r2, traced ?s1 es2)"
    using for_each_call_traced [of env Tunnel_destroy "map snd (tunnels s)" ?s1] by blast
  let ?s2 = "(traced ?s1 es2)\<lparr>tunnels := []\<rparr>"
  obtain r3 where 3: "call env Conn_disconnect ?s2 = (r3, traced ?s2 [Conn_disconnect])"
    using call_traced by blast
  have e0: "endpoints ?s0 = endpoints s" and t1: "tunnels ?s1 = tunnels s"
    by (simp_all add: traced_def)
  from assms(1) obtain c where connected: "conn s = Some c"
    by auto
  have unfold: "disconnect env s =
      (case r1 of Inl e \<Rightarrow> (Inl e, traced ?s0 es1)
       | Inr u \<Rightarrow> (case r2 of Inl e \<Rightarrow> (Inl e, traced ?s1 es2)
          | Inr u \<Rightarrow> (case r3 of Inl e \<Rightarrow> (Inl e, traced ?s2 [Conn_disconnect])
             | Inr u \<Rightarrow> (Inr (), (traced ?s2 [Conn_disconnect])\<lparr>conn := None, nodes := []\<rparr>))))"
    using connected 1 2 3 e0 t1
    by (simp add: disconnect_def andthen_def logging_def modify_def traced_def split: sum.splits)
  from assms(2) unfold have "r1 = Inr () \<and> r2 = Inr () \<and> r3 = Inr ()"
    by (auto split: sum.splits)
  with unfold have "disconnect env s =
      (Inr (), traced (disconnected s) ([Log Info ''Disconnecting''] @ es1 @ es2 @ [Conn_disconnect]))"
    by (simp add: traced_def disconnected_def)
  then show ?thesis by blast
qed


lemma for_each_call_ok:
  "\<forall>e. raises env e = None \<Longrightarrow>
     for_each (\<lambda>x. call env (f x)) xs s = (Inr (), traced s (map f xs))"
proof (induction xs arbitrary: s)
  case Nil
  show ?case by (simp add: ret_def traced_def)
next
  case (Cons x xs)
  from Cons.prems have "call env (f x) s = (Inr (), traced s [f x])"
    by (simp add: call_def traced_def)
  with Cons show ?case
    by (simp add: andthen_def traced_traced)
qed

lemma for_each_nested_ok:
  "\<forall>e. raises env e = None \<Longrightarrow>
     for_each (\<lambda>x. for_each (\<lambda>y. call env (f x y)) (g x)) xs s
       = (Inr (), traced s (concat (map (\<lambda>x. map (f x) (g x)) xs)))"
proof (induction xs arbitrary: s)
  case Nil
  show ?case by (simp add: ret_def traced_def)
next
  case (Cons x xs)
  from Cons.prems have "for_each (\<lambda>y. call env (f x y)) (g x) s = (Inr (), traced s (map (f x) (g x)))"
    by (rule for_each_call_ok)
  with Cons show ?case
    by (simp add: andthen_def traced_traced)
qed

lemma disconnect_ok:
  assumes "conn s \<noteq> None" and "\<forall>e. raises env e = None"
  shows "disconnect env s = (Inr (), traced (disconnected s) (teardown s))"
proof -
  from assms(1) obtain c where connected: "conn s = Some c"
    by auto
  have call: "call env Conn_disconnect s' = (Inr (), traced s' [Conn_disconnect])" for s' :: "'a location"
    using assms(2) by (simp add: call_def traced_def)
  show ?thesis
    using connected assms(2)
    by (simp add: disconnect_def andthen_def logging_def modify_def for_each_nested_ok
        for_each_call_ok call)
      (simp add: traced_def disconnected_def teardown_def unpublish_effects_def destroy_effects_def)
qed

text \<open>
  After a teardown that meets no exception the volumes registry still holds its volume.
  And when \<open>unpublish\<close> raises, \<open>disconnect\<close> raises with the session still connected, and
  a second call sends again.
\<close>

theorem disconnect_leaves_volumes:
  "disconnect no_failures example_session
     = (Inr (), traced (disconnected example_session) (teardown example_session))
   \<and> volumes (snd (disconnect no_failures example_session)) = {example_volume}
   \<and> volumes (snd (disconnect no_failures example_session)) \<noteq> {}
   \<and> disconnect unpublish_fails example_session
     = (Inl (ExternalError ''cannot unpublish''),
        traced example_session [Log Info ''Disconnecting'', Endpoint_unpublish ''my.com'' ''k1''])
   \<and> disconnect unpublish_fails (snd (disconnect unpublish_fails example_session))
     = (Inl (ExternalError ''cannot unpublish''),
        traced example_session [Log Info ''Disconnecting'', Endpoint_unpublish ''my.com'' ''k1'',
                                Log Info ''Disconnecting'', Endpoint_unpublish ''my.com'' ''k1''])"
proof -
  have "conn example_session \<noteq> None"
    by (simp add: example_session_def)
  moreover have "\<forall>e. raises no_failures e = None"
    by (simp add: no_failures_def)
  ultimately have ok: "disconnect no_failures example_session
     = (Inr (), traced (disconnected example_session) (teardown example_session))"
    by (rule disconnect_ok)
  have "volumes (traced (disconnected example_session) (teardown example_session)) = {example_volume}"
    by (simp add: traced_def disconnected_def example_session_def)
  with ok have vols: "volumes (snd (disconnect no_failures example_session)) = {example_volume}"
    by simp
  have fails: "disconnect unpublish_fails example_session
     = (Inl (ExternalError ''cannot unpublish''),
        traced example_session [Log Info ''Disconnecting'', Endpoint_unpublish ''my.com'' ''k1''])"
    by (simp add: disconnect_def proc_simps unpublish_fails_def example_session_def)
  have again: "disconnect unpublish_fails
       (traced example_session [Log Info ''Disconnecting'', Endpoint_unpublish ''my.com'' ''k1''])
     = (Inl (ExternalError ''cannot unpublish''),
        traced example_session [Log Info ''Disconnecting'', Endpoint_unpublish ''my.com'' ''k1'',
                                Log Info ''Disconnecting'', Endpoint_unpublish ''my.com'' ''k1''])"
    by (simp add: disconnect_def proc_simps unpublish_fails_def example_session_def)
  from ok vols fails again show ?thesis by simp
qed

text \<open>
  C3, as the code has it. On a session whose transport handle is cleared, \<open>disconnect\<close>
  returns at once: nothing is sent, logged or changed. Whenever a call of \<open>disconnect\<close>
  returns, the handle is cleared, the volumes registry is as it was before the call, and
  a second call (whatever the collaborators then do) returns the same session unchanged.
  On a connected session, a call that returns leaves the registries of endpoints, tunnels
  and nodes empty; when no collaborator raises, it returns, having unpublished every
  cluster of every endpoint, destroyed every tunnel and disconnected the transport, in
  that order.
\<close>

theorem disconnect_idempotent:
  "(conn s = None \<longrightarrow> disconnect env s = (Inr (), s))
   \<and> (fst (disconnect env s) = Inr () \<longrightarrow>
        conn (snd (disconnect env s)) = None
        \<and> volumes (snd (disconnect env s)) = volumes s
        \<and> disconnect env' (snd (disconnect env s)) = (Inr (), snd (disconnect env s)))
   \<and> (conn s \<noteq> None \<and> fst (disconnect env s) = Inr () \<longrightarrow>
        endpoints (snd (disconnect env s)) = []
        \<and> tunnels (snd (disconnect env s)) = []
        \<and> nodes (snd (disconnect env s)) = [])
   \<and> (conn s \<noteq> None \<and> (\<forall>e. raises env e = None) \<longrightarrow>
        disconnect env s = (Inr (), traced (disconnected s) (teardown s)))"
proof -
  have noop: "conn s = None \<longrightarrow> disconnect env s = (Inr (), s)"
    by (simp add: disconnect_def ret_def)
  have emptied: "conn s \<noteq> None \<and> fst (disconnect env s) = Inr () \<longrightarrow>
        endpoints (snd (disconnect env s)) = []
        \<and> tunnels (snd (disconnect env s)) = []
        \<and> nodes (snd (disconnect env s)) = []
        \<and> conn (snd (disconnect env s)) = None
        \<and> volumes (snd (disconnect env s)) = volumes s"
  proof
    assume h: "conn s \<noteq> None \<and> fst (disconnect env s) = Inr ()"
    then obtain es where "disconnect env s = (Inr (), traced (disconnected s) es)"
      using disconnect_returns by blast
    then show "endpoints (snd (disconnect env s)) = []
        \<and> tunnels (snd (disconnect env s)) = []
        \<and> nodes (snd (disconnect env s)) = []
        \<and> conn (snd (disconnect env s)) = None
        \<and> volumes (snd (disconnect env s)) = volumes s"
      by (simp add: traced_def disconnected_def)
  qed
  have twice: "fst (disconnect env s) = Inr () \<longrightarrow>
        conn (snd (disconnect env s)) = None
        \<and> volumes (snd (disconnect env s)) = volumes s
        \<and> disconnect env' (snd (disconnect env s)) = (Inr (), snd (disconnect env s))"
  proof
    assume ok: "fst (disconnect env s) = Inr ()"
    have closed: "conn (snd (disconnect env s)) = None \<and> volumes (snd (disconnect env s)) = volumes s"
    proof (cases "conn s = None")
      case True
      with noop show ?thesis by simp
    next
      case False
      with ok emptied show ?thesis by simp
    qed
    then have "disconnect env' (snd (disconnect env s)) = (Inr (), snd (disconnect env s))"
      by (simp add: disconnect_def ret_def)
    with closed show "conn (snd (disconnect env s)) = None
        \<and> volumes (snd (disconnect env s)) = volumes s
        \<and> disconnect env' (snd (disconnect env s)) = (Inr (), snd (disconnect env s))"
      by simp
  qed
  have exact: "conn s \<noteq> None \<and> (\<forall>e. raises env e = None) \<longrightarrow>
        disconnect env s = (Inr (), traced (disconnected s) (teardown s))"
    by (simp add: disconnect_ok)
  from noop twice emptied exact show ?thesis by blast
qed

text \<open>The example session, disconnected twice.\<close>

theorem disconnect_idempotent_witness:
  "conn example_session \<noteq> None
   \<and> disconnect no_failures example_session
       = (Inr (), traced (disconnected example_session) (teardown example_session))
   \<and> teardown example_session
       = [Log Info ''Disconnecting'', Endpoint_unpublish ''my.com'' ''k1'',
          Tunnel_destroy example_tunnel, Conn_disconnect]
   \<and> conn (traced (disconnected example_session) (teardown example_session)) = None
   \<and> disconnect remote_rejects (traced (disconnected example_session) (teardown example_session))
       = (Inr (), traced (disconnected example_session) (teardown example_session))
   \<and> endpoints (traced (disconnected example_session) (teardown example_session)) = []
   \<and> tunnels (traced (disconnected example_session) (teardown example_session)) = []
   \<and> nodes (traced (disconnected example_session) (teardown example_session)) = []"
proof -
  have h1: "conn example_session \<noteq> None"
    by (simp add: example_session_def)
  have h2: "\<forall>e. raises no_failures e = None"
    by (simp add: no_failures_def)
  have t: "teardown example_session
       = [Log Info ''Disconnecting'', Endpoint_unpublish ''my.com'' ''k1'',
          Tunnel_destroy example_tunnel, Conn_disconnect]"
    by (simp add: teardown_def unpublish_effects_def destroy_effects_def example_session_def)
  have c: "conn (traced (disconnected example_session) (teardown example_session)) = None"
    by (simp add: traced_def disconnected_def)
  from h1 h2 c
    disconnect_idempotent [of example_session no_failures remote_rejects]
    disconnect_idempotent [of "traced (disconnected example_session) (teardown example_session)"
      remote_rejects remote_rejects]
  show ?thesis
    by (simp add: t) (simp add: traced_def disconnected_def)
qed

end
